theory Spec2Isabelle
  imports Main "HOL-Library.Multiset"
begin

section \<open>Python values, dictionaries and request parameters\<close>

text \<open>
  The views handle attribute values dynamically (\<^verbatim>\<open>getattr\<close>, \<^verbatim>\<open>setattr\<close>,
  \<^verbatim>\<open>dict.get\<close>), so a field value is a Python value: \<^verbatim>\<open>None\<close>, a boolean, an
  integer or a string. A string is the list of the bytes of its UTF-8 encoding.
\<close>

datatype pyval = PNone | PBool bool | PInt int | PStr string

text \<open>Python truthiness, the \<^verbatim>\<open>not current\<close> of the merge loop.\<close>

fun truthy :: "pyval \<Rightarrow> bool" where
  "truthy PNone = False"
| "truthy (PBool b) = b"
| "truthy (PInt i) = (i \<noteq> 0)"
| "truthy (PStr s) = (s \<noteq> [])"

type_synonym pydict = "(string \<times> pyval) list"

text \<open>\<^verbatim>\<open>d.get(k)\<close>: the value stored under the key, \<^verbatim>\<open>None\<close> when the key is missing.\<close>

definition dict_get :: "pydict \<Rightarrow> string \<Rightarrow> pyval" where
  "dict_get d k = (case map_of d k of None \<Rightarrow> PNone | Some v \<Rightarrow> v)"


text \<open>
  A call that may fail (a collaborator, \<^verbatim>\<open>save\<close>): it returns, or raises an exception of
  class \<^verbatim>\<open>Exception\<close> (\<open>Raised\<close>), or raises one outside that class, such as
  \<^verbatim>\<open>KeyboardInterrupt\<close> or \<^verbatim>\<open>SystemExit\<close> (\<open>Interrupted\<close>). An \<^verbatim>\<open>except Exception\<close> catches
  the first kind only.
\<close>

datatype 'a outcome = Raised | Interrupted | Returned 'a

text \<open>
  A \<^verbatim>\<open>QueryDict\<close> (\<^verbatim>\<open>request.GET\<close>, \<^verbatim>\<open>request.POST\<close>): the submitted pairs in order.
  \<^verbatim>\<open>getlist\<close> gives every value of a key, \<^verbatim>\<open>get\<close> the last one.
\<close>

type_synonym querydict = "(string \<times> string) list"

definition getlist :: "querydict \<Rightarrow> string \<Rightarrow> string list" where
  "getlist q k = map snd (filter (\<lambda>kv. fst kv = k) q)"

definition qd_get :: "querydict \<Rightarrow> string \<Rightarrow> string option" where
  "qd_get q k = (case getlist q k of [] \<Rightarrow> None | v # vs \<Rightarrow> Some (last (v # vs)))"

text \<open>\<^verbatim>\<open>q.get(k, default)\<close>.\<close>

definition qd_get_default :: "querydict \<Rightarrow> string \<Rightarrow> string \<Rightarrow> string" where
  "qd_get_default q k d = (case qd_get q k of None \<Rightarrow> d | Some v \<Rightarrow> v)"

text \<open>Decimal rendering of a counter inside an f-string.\<close>

fun str_nat :: "nat \<Rightarrow> string" where
  "str_nat n = (if n < 10 then [''0123456789'' ! n]
                else str_nat (n div 10) @ [''0123456789'' ! (n mod 10)])"

declare str_nat.simps [simp del]

datatype level = Info | Success | Error

record response =
  flash :: "(level \<times> string) list"
  redirect :: string

text \<open>What a view gives back: a response, a not-found page, or an exception nobody caught.\<close>

datatype reply = Responded response | Http404 | Uncaught

text \<open>
  A \<^verbatim>\<open>for\<close> loop whose body may let an exception out: the body gives the state it
  leaves and whether an exception left it; the loop stops there.
\<close>

fun for_each :: "('s \<Rightarrow> 'a \<Rightarrow> 's \<times> bool) \<Rightarrow> 's \<Rightarrow> 'a list \<Rightarrow> 's \<times> bool" where
  "for_each body s [] = (s, False)"
| "for_each body s (x # xs) = (let r = body s x in if snd r then r else for_each body (fst r) xs)"

section \<open>Strings of request parameters\<close>

text \<open>
  On a string of ASCII characters \<^verbatim>\<open>str.strip()\<close>, \<^verbatim>\<open>str.lower()\<close> and \<^verbatim>\<open>int()\<close> are
  the functions below.
\<close>

definition ascii :: "string \<Rightarrow> bool" where
  "ascii s = list_all (\<lambda>c. (of_char c :: nat) < 128) s"

text \<open>The ASCII characters for which \<^verbatim>\<open>str.isspace()\<close> holds.\<close>

definition is_space :: "char \<Rightarrow> bool" where
  "is_space c = (c \<in> set [CHR 0x09, CHR 0x0A, CHR 0x0B, CHR 0x0C, CHR 0x0D,
                           CHR 0x1C, CHR 0x1D, CHR 0x1E, CHR 0x1F, CHR 0x20])"

definition ascii_strip :: "string \<Rightarrow> string" where
  "ascii_strip s = rev (dropWhile is_space (rev (dropWhile is_space s)))"

definition lower_char :: "char \<Rightarrow> char" where
  "lower_char c =
     (case map_of (zip ''ABCDEFGHIJKLMNOPQRSTUVWXYZ'' ''abcdefghijklmnopqrstuvwxyz'') c of
        None \<Rightarrow> c
      | Some l \<Rightarrow> l)"

definition ascii_lower :: "string \<Rightarrow> string" where
  "ascii_lower s = map lower_char s"

text \<open>
  \<^verbatim>\<open>int(s)\<close>: surrounding whitespace, an optional sign, then decimal digits with single
  underscores allowed between digits; \<open>None\<close> stands for \<^verbatim>\<open>ValueError\<close>.
\<close>

definition digit_val :: "char \<Rightarrow> nat option" where
  "digit_val c = map_of (zip ''0123456789'' [0, 1, 2, 3, 4, 5, 6, 7, 8, 9]) c"

fun parse_digits :: "nat \<Rightarrow> string \<Rightarrow> nat option" where
  "parse_digits acc [] = Some acc"
| "parse_digits acc [c] = (case digit_val c of None \<Rightarrow> None | Some d \<Rightarrow> Some (10 * acc + d))"
| "parse_digits acc (c # c' # cs) =
     (if c = CHR ''_'' then
        (case digit_val c' of None \<Rightarrow> None | Some d \<Rightarrow> parse_digits (10 * acc + d) cs)
      else
        (case digit_val c of None \<Rightarrow> None | Some d \<Rightarrow> parse_digits (10 * acc + d) (c' # cs)))"

definition parse_nat :: "string \<Rightarrow> nat option" where
  "parse_nat s =
     (case s of
        [] \<Rightarrow> None
      | c # cs \<Rightarrow> (case digit_val c of None \<Rightarrow> None | Some d \<Rightarrow> parse_digits d cs))"

definition ascii_int :: "string \<Rightarrow> int option" where
  "ascii_int s =
     (case ascii_strip s of
        [] \<Rightarrow> None
      | c # cs \<Rightarrow>
          if c = CHR ''-'' then map_option (\<lambda>n. - int n) (parse_nat cs)
          else if c = CHR ''+'' then map_option int (parse_nat cs)
          else map_option int (parse_nat (c # cs)))"

text \<open>
  Python's Unicode tables are no part of the sources, and the limit \<^verbatim>\<open>int()\<close> puts on
  the number of digits (4300 by default) depends on the interpreter. What the three
  functions do on a string with a character outside ASCII, and \<^verbatim>\<open>int()\<close> on a string
  of more than 4300 characters, is a parameter of the model.
\<close>

record pystr =
  uni_strip :: "string \<Rightarrow> string"
  uni_lower :: "string \<Rightarrow> string"
  uni_int :: "string \<Rightarrow> int option"

text \<open>\<^verbatim>\<open>s.strip()\<close>, \<^verbatim>\<open>s.lower()\<close> and \<^verbatim>\<open>int(s)\<close>.\<close>

definition strip :: "pystr \<Rightarrow> string \<Rightarrow> string" where
  "strip U s = (if ascii s then ascii_strip s else uni_strip U s)"

definition lower :: "pystr \<Rightarrow> string \<Rightarrow> string" where
  "lower U s = (if ascii s then ascii_lower s else uni_lower U s)"

definition py_int :: "pystr \<Rightarrow> string \<Rightarrow> int option" where
  "py_int U s = (if ascii s \<and> length s \<le> 4300 then ascii_int s else uni_int U s)"

section \<open>Companies\<close>

text \<open>
  Modelled from the spec: the model classes (\<^verbatim>\<open>leads/models.py\<close>) are not among the
  sources. A company is identified by its domain, its natural key; the views read and
  write its other attributes by name, so they are kept as a function from attribute
  names to values.
\<close>

record company =
  domain :: string
  attrs :: "string \<Rightarrow> pyval"

definition getattr :: "company \<Rightarrow> string \<Rightarrow> pyval" where
  "getattr c f = attrs c f"

definition setattr :: "company \<Rightarrow> string \<Rightarrow> pyval \<Rightarrow> company" where
  "setattr c f v = c\<lparr>attrs := (attrs c)(f := v)\<rparr>"

subsection \<open>\<^verbatim>\<open>company_enrich\<close>: the merge of one collaborator result\<close>

text \<open>The list \<^verbatim>\<open>fields\<close> of \<^verbatim>\<open>company_enrich\<close>.\<close>

definition enrich_fields :: "string list" where
  "enrich_fields = [''work_website'', ''linkedin'', ''company_name'', ''industry'', ''company_size'',
     ''hq_country'', ''org_type'', ''tech_stack'', ''street'', ''city'', ''state'',
     ''postal_code'', ''country'', ''work_phone'', ''facebook'']"

text \<open>The body of \<^verbatim>\<open>for field in fields\<close>; the state is the company and \<^verbatim>\<open>updated\<close>.\<close>

definition merge_field :: "bool \<Rightarrow> pydict \<Rightarrow> company \<times> bool \<Rightarrow> string \<Rightarrow> company \<times> bool" where
  "merge_field overwrite enriched_data st field =
     (let val = dict_get enriched_data field in
      if val = PNone \<or> val = PStr [] then st
      else
        let current = getattr (fst st) field in
        if overwrite \<or> \<not> truthy current then (setattr (fst st) field val, True)
        else st)"

definition merge_over :: "bool \<Rightarrow> pydict \<Rightarrow> string list \<Rightarrow> company \<times> bool \<Rightarrow> company \<times> bool" where
  "merge_over overwrite enriched_data fs st = foldl (merge_field overwrite enriched_data) st fs"

definition merge_fields :: "bool \<Rightarrow> pydict \<Rightarrow> company \<Rightarrow> company \<times> bool" where
  "merge_fields overwrite enriched_data c = merge_over overwrite enriched_data enrich_fields (c, False)"

text \<open>The merge policy in the specification's words: when a field is written.\<close>

definition field_written :: "bool \<Rightarrow> pyval \<Rightarrow> pyval \<Rightarrow> bool" where
  "field_written overwrite val current =
     (val \<noteq> PNone \<and> val \<noteq> PStr [] \<and> (overwrite \<or> \<not> truthy current))"

subsection \<open>\<^verbatim>\<open>company_enrich\<close>: the gate, the candidates and the loop\<close>

text \<open>
  \<^verbatim>\<open>os.getenv("GENAI_API_KEY") and os.getenv("OPENAI_API_KEY")\<close>, read for its truth
  value: both variables are set and neither is the empty string.
\<close>

definition enable_enrichment :: "(string \<Rightarrow> string option) \<Rightarrow> bool" where
  "enable_enrichment getenv =
     (case getenv ''GENAI_API_KEY'' of
        None \<Rightarrow> False
      | Some a \<Rightarrow> a \<noteq> [] \<and>
          (case getenv ''OPENAI_API_KEY'' of None \<Rightarrow> False | Some b \<Rightarrow> b \<noteq> []))"

text \<open>\<^verbatim>\<open>mode = request.GET.get('mode', 'empty'); overwrite = mode == 'all'\<close>.\<close>

definition overwrite_mode :: "querydict \<Rightarrow> bool" where
  "overwrite_mode GET = (qd_get_default GET ''mode'' ''empty'' = ''all'')"

text \<open>
  The fill-mode filter: the disjunction of \<^verbatim>\<open>isnull\<close> and \<^verbatim>\<open>= ''\<close> over the fifteen
  fields, in the order of the list \<^verbatim>\<open>fields\<close>; \<^verbatim>\<open>company_size\<close> is tested for null only.
\<close>

definition company_missing_field :: "company \<Rightarrow> bool" where
  "company_missing_field c =
     list_ex (\<lambda>f. getattr c f = PNone \<or> (f \<noteq> ''company_size'' \<and> getattr c f = PStr [])) enrich_fields"

text \<open>
  The state of a run: the three counters, the collaborator calls made so far and
  the stored rows.
\<close>

record ('call, 'row) run =
  enriched :: nat
  skipped :: nat
  errors :: nat
  calls :: "'call list"
  rows :: "'row list"

text \<open>\<^verbatim>\<open>company.save()\<close> writes the row whose key is the company's domain.\<close>

definition save_company :: "company \<Rightarrow> company list \<Rightarrow> company list" where
  "save_company c db = map (\<lambda>x. if domain x = domain c then c else x) db"

text \<open>
  The body of \<^verbatim>\<open>for company in companies\<close>, a \<^verbatim>\<open>try\<close> with \<^verbatim>\<open>except Exception\<close>.
  \<open>enrich_company\<close> is the collaborator (it returns \<^verbatim>\<open>None\<close> or a dictionary, or
  raises); \<open>save\<close> tells how \<^verbatim>\<open>company.save()\<close> ends for the merged record.
\<close>

definition company_step ::
  "(string \<Rightarrow> pydict option outcome) \<Rightarrow> (company \<Rightarrow> unit outcome) \<Rightarrow> bool \<Rightarrow>
   (string, company) run \<Rightarrow> company \<Rightarrow> (string, company) run \<times> bool" where
  "company_step enrich_company save overwrite s0 c =
     (let s = s0\<lparr>calls := calls s0 @ [domain c]\<rparr> in
      case enrich_company (domain c) of
        Interrupted \<Rightarrow> (s, True)
      | Raised \<Rightarrow> (s\<lparr>errors := errors s + 1\<rparr>, False)
      | Returned None \<Rightarrow> (s\<lparr>errors := errors s + 1\<rparr>, False)
      | Returned (Some enriched_data) \<Rightarrow>
          if enriched_data = [] then (s\<lparr>errors := errors s + 1\<rparr>, False)
          else
            let m = merge_fields overwrite enriched_data c in
            if snd m then
              (case save (fst m) of
                 Interrupted \<Rightarrow> (s, True)
               | Raised \<Rightarrow> (s\<lparr>errors := errors s + 1\<rparr>, False)
               | Returned u \<Rightarrow>
                   (s\<lparr>rows := save_company (fst m) (rows s), enriched := enriched s + 1\<rparr>, False))
            else (s\<lparr>skipped := skipped s + 1\<rparr>, False))"

text \<open>The candidate set: every company in overwrite mode, those missing a field otherwise.\<close>

definition company_candidates :: "bool \<Rightarrow> company list \<Rightarrow> company list" where
  "company_candidates overwrite db = (if \<not> overwrite then filter company_missing_field db else db)"

definition summary :: "string \<Rightarrow> string \<Rightarrow> ('call, 'row) run \<Rightarrow> string" where
  "summary what unit s =
     what @ '' enrichment completed. Enriched '' @ str_nat (enriched s) @ '' '' @ unit @ ''(s).''
     @ (if skipped s \<noteq> 0 then '' Skipped '' @ str_nat (skipped s) @ ''.'' else [])
     @ (if errors s \<noteq> 0 then '' '' @ str_nat (errors s) @ '' error(s) occurred.'' else [])"

definition disabled_message :: string where
  "disabled_message =
     ''AI enrichment is disabled. Add GENAI_API_KEY and OPENAI_API_KEY to keys.env to enable.''"

definition company_enrich ::
  "(string \<Rightarrow> string option) \<Rightarrow> (string \<Rightarrow> pydict option outcome) \<Rightarrow> (company \<Rightarrow> unit outcome) \<Rightarrow>
   querydict \<Rightarrow> company list \<Rightarrow> reply \<times> (string, company) run" where
  "company_enrich getenv enrich_company save GET db =
     (let start = \<lparr>enriched = 0, skipped = 0, errors = 0, calls = [], rows = db\<rparr> in
      if \<not> enable_enrichment getenv then
        (Responded \<lparr>flash = [(Error, disabled_message)], redirect = ''companies:company_list''\<rparr>,
         start)
      else
        let overwrite = overwrite_mode GET;
            companies = company_candidates overwrite db in
        if length companies = 0 then
          (Responded \<lparr>flash = [(Info, ''No companies need enrichment.'')],
                      redirect = ''companies:company_list''\<rparr>, start)
        else
          let r = for_each (company_step enrich_company save overwrite) start companies in
          if snd r then (Uncaught, fst r)
          else
            (Responded \<lparr>flash = [(Success, summary ''Company'' ''company'' (fst r))],
                        redirect = ''companies:company_list''\<rparr>, fst r))"

section \<open>Leads\<close>

text \<open>
  Modelled from the spec: a lead is keyed by its email address and refers to at most
  one company, by the company's domain; its other attributes are read by name.
\<close>

record lead =
  email :: string
  company_ref :: "string option"
  lattrs :: "string \<Rightarrow> pyval"

subsection \<open>\<^verbatim>\<open>lead_enrich\<close>\<close>

definition lead_missing_field :: "lead \<Rightarrow> bool" where
  "lead_missing_field l =
     list_ex (\<lambda>f. lattrs l f = PNone \<or> lattrs l f = PStr [])
       [''pdl_first_name'', ''pdl_last_name'', ''pdl_job_title'', ''pdl_linkedin_url'']"

definition lead_candidates :: "bool \<Rightarrow> lead list \<Rightarrow> lead list" where
  "lead_candidates overwrite db = (if \<not> overwrite then filter lead_missing_field db else db)"

definition save_lead :: "lead \<Rightarrow> lead list \<Rightarrow> lead list" where
  "save_lead l db = map (\<lambda>x. if email x = email l then l else x) db"

text \<open>
  The body of \<^verbatim>\<open>for lead in leads\<close>, a \<^verbatim>\<open>try\<close> with \<^verbatim>\<open>except Exception\<close>. The
  collaborator \<open>enrich_lead\<close> merges and stores the lead itself: it gives its outcome and
  the lead as it has left it.
\<close>

definition lead_step ::
  "(lead \<Rightarrow> bool \<Rightarrow> pydict option outcome \<times> lead) \<Rightarrow> bool \<Rightarrow>
   (lead \<times> bool, lead) run \<Rightarrow> lead \<Rightarrow> (lead \<times> bool, lead) run \<times> bool" where
  "lead_step enrich_lead overwrite s0 l =
     (let r = enrich_lead l overwrite;
          s = s0\<lparr>calls := calls s0 @ [(l, overwrite)], rows := save_lead (snd r) (rows s0)\<rparr> in
      case fst r of
        Interrupted \<Rightarrow> (s, True)
      | Raised \<Rightarrow> (s\<lparr>errors := errors s + 1\<rparr>, False)
      | Returned None \<Rightarrow> (s\<lparr>errors := errors s + 1\<rparr>, False)
      | Returned (Some result) \<Rightarrow>
          if result \<noteq> [] \<and> truthy (dict_get result ''skipped'')
          then (s\<lparr>skipped := skipped s + 1\<rparr>, False)
          else if result \<noteq> [] then (s\<lparr>enriched := enriched s + 1\<rparr>, False)
          else (s\<lparr>errors := errors s + 1\<rparr>, False))"

definition lead_enrich ::
  "(string \<Rightarrow> string option) \<Rightarrow> (lead \<Rightarrow> bool \<Rightarrow> pydict option outcome \<times> lead) \<Rightarrow>
   querydict \<Rightarrow> lead list \<Rightarrow> reply \<times> (lead \<times> bool, lead) run" where
  "lead_enrich getenv enrich_lead GET db =
     (let start = \<lparr>enriched = 0, skipped = 0, errors = 0, calls = [], rows = db\<rparr> in
      if \<not> enable_enrichment getenv then
        (Responded \<lparr>flash = [(Error, disabled_message)], redirect = ''leads:lead_list''\<rparr>, start)
      else
        let overwrite = overwrite_mode GET;
            leads = lead_candidates overwrite db in
        if length leads = 0 then
          (Responded \<lparr>flash = [(Info, ''No leads need enrichment.'')], redirect = ''leads:lead_list''\<rparr>,
           start)
        else
          let r = for_each (lead_step enrich_lead overwrite) start leads in
          if snd r then (Uncaught, fst r)
          else
            (Responded \<lparr>flash = [(Success, summary ''Lead'' ''lead'' (fst r))],
                        redirect = ''leads:lead_list''\<rparr>, fst r))"

subsection \<open>How a run classifies one record\<close>

datatype verdict = Enriched | Skipped | Errored | Escaped

text \<open>
  A company counts as an error when the collaborator or the save raises an
  \<^verbatim>\<open>Exception\<close> or when the collaborator returns nothing (\<^verbatim>\<open>None\<close> or an empty
  dictionary), as skipped when the merge writes no field, and as enriched otherwise;
  an exception outside \<^verbatim>\<open>Exception\<close> escapes the loop.
\<close>

definition company_verdict ::
  "(string \<Rightarrow> pydict option outcome) \<Rightarrow> (company \<Rightarrow> unit outcome) \<Rightarrow> bool \<Rightarrow> company \<Rightarrow> verdict" where
  "company_verdict enrich_company save overwrite c =
     (case enrich_company (domain c) of
        Interrupted \<Rightarrow> Escaped
      | Raised \<Rightarrow> Errored
      | Returned None \<Rightarrow> Errored
      | Returned (Some d) \<Rightarrow>
          if d = [] then Errored
          else if list_ex (\<lambda>f. field_written overwrite (dict_get d f) (getattr c f)) enrich_fields
          then (case save (fst (merge_fields overwrite d c)) of
                  Interrupted \<Rightarrow> Escaped
                | Raised \<Rightarrow> Errored
                | Returned u \<Rightarrow> Enriched)
          else Skipped)"

text \<open>
  A lead counts as an error when the collaborator raises an \<^verbatim>\<open>Exception\<close> or returns
  nothing, as skipped when the result's \<^verbatim>\<open>skipped\<close> entry is truthy, and as enriched
  otherwise; an exception outside \<^verbatim>\<open>Exception\<close> escapes the loop.
\<close>

definition lead_verdict ::
  "(lead \<Rightarrow> bool \<Rightarrow> pydict option outcome \<times> lead) \<Rightarrow> bool \<Rightarrow> lead \<Rightarrow> verdict" where
  "lead_verdict enrich_lead overwrite l =
     (case fst (enrich_lead l overwrite) of
        Interrupted \<Rightarrow> Escaped
      | Raised \<Rightarrow> Errored
      | Returned None \<Rightarrow> Errored
      | Returned (Some d) \<Rightarrow>
          if d = [] then Errored
          else if truthy (dict_get d ''skipped'') then Skipped
          else Enriched)"

definition tally :: "('a \<Rightarrow> verdict) \<Rightarrow> verdict \<Rightarrow> 'a list \<Rightarrow> nat" where
  "tally classify v xs = length (filter (\<lambda>x. classify x = v) xs)"

text \<open>The candidates visited before an exception escapes, and the one it escapes from.\<close>

definition visited :: "('a \<Rightarrow> verdict) \<Rightarrow> 'a list \<Rightarrow> 'a list" where
  "visited classify xs = takeWhile (\<lambda>x. classify x \<noteq> Escaped) xs"

definition breaking :: "('a \<Rightarrow> verdict) \<Rightarrow> 'a list \<Rightarrow> 'a list" where
  "breaking classify xs = take 1 (dropWhile (\<lambda>x. classify x \<noteq> Escaped) xs)"

text \<open>The record a company is stored as when the merge of the collaborator's data is saved.\<close>

definition merged_company :: "(string \<Rightarrow> pydict option outcome) \<Rightarrow> bool \<Rightarrow> company \<Rightarrow> company" where
  "merged_company enrich_company overwrite c =
     (case enrich_company (domain c) of
        Returned (Some d) \<Rightarrow> fst (merge_fields overwrite d c)
      | _ \<Rightarrow> c)"

section \<open>Pagination\<close>

text \<open>
  Both list views call \<^verbatim>\<open>Paginator(rows, 10).get_page(page_number or 1)\<close>. The paginator
  is Django's; the definitions follow its \<^verbatim>\<open>num_pages\<close>, \<^verbatim>\<open>validate_number\<close>, \<^verbatim>\<open>get_page\<close>
  and \<^verbatim>\<open>page\<close> with no orphans and an allowed empty first page (the defaults).
\<close>

definition per_page :: nat where
  "per_page = 10"

text \<open>\<^verbatim>\<open>ceil(max(1, count) / per_page)\<close> for \<open>n\<close> rows.\<close>

definition num_pages :: "nat \<Rightarrow> nat" where
  "num_pages n = (max 1 n + per_page - 1) div per_page"

datatype page_error = PageNotAnInteger | EmptyPage

text \<open>\<^verbatim>\<open>int(number)\<close> for the argument of \<^verbatim>\<open>get_page\<close>; \<^verbatim>\<open>None\<close> is a \<^verbatim>\<open>TypeError\<close>.\<close>

fun int_of_pyval :: "pystr \<Rightarrow> pyval \<Rightarrow> int option" where
  "int_of_pyval U PNone = None"
| "int_of_pyval U (PBool b) = Some (if b then 1 else 0)"
| "int_of_pyval U (PInt i) = Some i"
| "int_of_pyval U (PStr s) = py_int U s"

definition validate_number :: "pystr \<Rightarrow> nat \<Rightarrow> pyval \<Rightarrow> page_error + int" where
  "validate_number U len number =
     (case int_of_pyval U number of
        None \<Rightarrow> Inl PageNotAnInteger
      | Some n \<Rightarrow>
          if n < 1 then Inl EmptyPage
          else if n > int (num_pages len) then Inl EmptyPage
          else Inr n)"

record 'a page =
  object_list :: "'a list"
  number :: nat

text \<open>\<^verbatim>\<open>Paginator.page\<close> for a number that \<^verbatim>\<open>validate_number\<close> accepts.\<close>

definition page_of :: "'a list \<Rightarrow> nat \<Rightarrow> 'a page" where
  "page_of xs n =
     (let bottom = (n - 1) * per_page;
          top = (if bottom + per_page \<ge> length xs then length xs else bottom + per_page)
      in \<lparr>object_list = take (top - bottom) (drop bottom xs), number = n\<rparr>)"

definition get_page :: "pystr \<Rightarrow> 'a list \<Rightarrow> pyval \<Rightarrow> 'a page" where
  "get_page U xs given =
     (case validate_number U (length xs) given of
        Inr n \<Rightarrow> page_of xs (nat n)
      | Inl PageNotAnInteger \<Rightarrow> page_of xs 1
      | Inl EmptyPage \<Rightarrow> page_of xs (num_pages (length xs)))"

text \<open>
  \<^verbatim>\<open>page_number = (request.GET.get('page') or '').strip()\<close> and the argument
  \<^verbatim>\<open>page_number or 1\<close>.
\<close>

definition page_arg :: "pystr \<Rightarrow> querydict \<Rightarrow> pyval" where
  "page_arg U GET =
     (let page_number = strip U (case qd_get GET ''page'' of None \<Rightarrow> [] | Some v \<Rightarrow> v)
      in if page_number = [] then PInt 1 else PStr page_number)"

definition paginate :: "pystr \<Rightarrow> querydict \<Rightarrow> 'a list \<Rightarrow> 'a page" where
  "paginate U GET xs = get_page U xs (page_arg U GET)"

section \<open>Ordering of the list views\<close>

text \<open>
  The list views sort in the database. A column value is \<^verbatim>\<open>NULL\<close>, a number or a text;
  \<^verbatim>\<open>ORDER BY\<close> puts \<^verbatim>\<open>NULL\<close> first, then numbers, then texts byte by byte (the order
  of SQLite, Django's default database), and \<^verbatim>\<open>DESC\<close> reverses a column. Rows that tie
  on every criterion come in the order in which the query produces them before the
  sort.
\<close>

datatype sqlval = Null | Num int | Text string

text \<open>The column value of an attribute.\<close>

fun stored :: "pyval \<Rightarrow> sqlval" where
  "stored PNone = Null"
| "stored (PBool b) = Num (if b then 1 else 0)"
| "stored (PInt i) = Num i"
| "stored (PStr s) = Text s"

datatype cmp = LESS | EQUAL | GREATER

fun str_less :: "string \<Rightarrow> string \<Rightarrow> bool" where
  "str_less [] [] = False"
| "str_less [] (y # ys) = True"
| "str_less (x # xs) [] = False"
| "str_less (x # xs) (y # ys) = ((of_char x :: nat) < of_char y \<or> (x = y \<and> str_less xs ys))"

fun sql_cmp :: "sqlval \<Rightarrow> sqlval \<Rightarrow> cmp" where
  "sql_cmp Null Null = EQUAL"
| "sql_cmp Null (Num j) = LESS"
| "sql_cmp Null (Text t) = LESS"
| "sql_cmp (Num i) Null = GREATER"
| "sql_cmp (Num i) (Num j) = (if i < j then LESS else if i = j then EQUAL else GREATER)"
| "sql_cmp (Num i) (Text t) = LESS"
| "sql_cmp (Text s) Null = GREATER"
| "sql_cmp (Text s) (Num j) = GREATER"
| "sql_cmp (Text s) (Text t) = (if str_less s t then LESS else if s = t then EQUAL else GREATER)"

fun flip :: "cmp \<Rightarrow> cmp" where
  "flip LESS = GREATER"
| "flip EQUAL = EQUAL"
| "flip GREATER = LESS"

text \<open>
  \<^verbatim>\<open>Lower(x)\<close> and \<^verbatim>\<open>Coalesce(x, y)\<close>. The database's \<^verbatim>\<open>LOWER\<close> lowers the ASCII letters
  only.
\<close>

fun Lower :: "sqlval \<Rightarrow> sqlval" where
  "Lower (Text s) = Text (ascii_lower s)"
| "Lower Null = Null"
| "Lower (Num i) = Num i"

definition Coalesce :: "sqlval \<Rightarrow> sqlval \<Rightarrow> sqlval" where
  "Coalesce x y = (if x = Null then y else x)"

text \<open>
  The argument of \<^verbatim>\<open>order_by\<close>: the criteria in order, each a direction (\<open>Desc\<close> for a
  name with the prefix \<^verbatim>\<open>-\<close>) and a column.
\<close>

datatype direction = Asc | Desc

type_synonym 'r criteria = "(direction \<times> ('r \<Rightarrow> sqlval)) list"

text \<open>One criterion: the comparison of its column, reversed for \<open>Desc\<close>.\<close>

definition col_cmp :: "direction \<times> ('r \<Rightarrow> sqlval) \<Rightarrow> 'r \<Rightarrow> 'r \<Rightarrow> cmp" where
  "col_cmp dc a b =
     (if fst dc = Desc then flip (sql_cmp (snd dc a) (snd dc b)) else sql_cmp (snd dc a) (snd dc b))"

text \<open>The criteria one after the other: a later one decides only when the earlier ones tie.\<close>

fun row_cmp :: "'r criteria \<Rightarrow> 'r \<Rightarrow> 'r \<Rightarrow> cmp" where
  "row_cmp [] a b = EQUAL"
| "row_cmp (dc # cs) a b =
     (case col_cmp dc a b of
        EQUAL \<Rightarrow> row_cmp cs a b
      | LESS \<Rightarrow> LESS
      | GREATER \<Rightarrow> GREATER)"

text \<open>Row \<open>a\<close> may come before row \<open>b\<close>.\<close>

definition row_le :: "'r criteria \<Rightarrow> 'r \<Rightarrow> 'r \<Rightarrow> bool" where
  "row_le crit a b = (row_cmp crit a b \<noteq> GREATER)"

text \<open>The sort: each row goes in front of the first row it does not come after.\<close>

fun insert_row :: "'r criteria \<Rightarrow> 'r \<Rightarrow> 'r list \<Rightarrow> 'r list" where
  "insert_row crit x [] = [x]"
| "insert_row crit x (y # ys) =
     (if row_cmp crit x y = GREATER then y # insert_row crit x ys else x # y # ys)"

definition order_by :: "'r criteria \<Rightarrow> 'r list \<Rightarrow> 'r list" where
  "order_by crit xs = foldr (insert_row crit) xs []"

text \<open>\<^verbatim>\<open>prefix = '-' if sort_dir == 'desc' else ''\<close>.\<close>

definition prefix_of :: "string \<Rightarrow> direction" where
  "prefix_of sort_dir = (if sort_dir = ''desc'' then Desc else Asc)"

text \<open>\<^verbatim>\<open>(request.GET.get(k) or '').strip().lower()\<close>.\<close>

definition param :: "pystr \<Rightarrow> querydict \<Rightarrow> string \<Rightarrow> string" where
  "param U GET k = lower U (strip U (case qd_get GET k of None \<Rightarrow> [] | Some v \<Rightarrow> v))"

text \<open>What a list view hands to its template, as far as ordering and paging go.\<close>

record 'r listing =
  queryset :: "'r list"
  page_obj :: "'r page"
  sort_key :: string
  sort_dir :: string

subsection \<open>\<^verbatim>\<open>company_list\<close>\<close>

definition company_sort_key :: "pystr \<Rightarrow> querydict \<Rightarrow> string" where
  "company_sort_key U GET =
     (let sort_key = param U GET ''sort'' in
      if sort_key \<notin> set [''name'', ''domain'', ''industry'', ''size'', ''leads''] then [] else sort_key)"

text \<open>\<^verbatim>\<open>_default_dir_for\<close> of \<^verbatim>\<open>company_list\<close>.\<close>

definition company_default_dir_for :: "string \<Rightarrow> string" where
  "company_default_dir_for key = (if key \<in> set [''size'', ''leads''] then ''desc'' else ''asc'')"

definition company_sort_dir :: "pystr \<Rightarrow> querydict \<Rightarrow> string" where
  "company_sort_dir U GET =
     (let sort_dir = param U GET ''dir'' in
      if company_sort_key U GET \<noteq> [] then company_default_dir_for (company_sort_key U GET) else sort_dir)"

text \<open>\<^verbatim>\<open>Count('leads')\<close>: the leads that refer to the company.\<close>

definition leads_count :: "lead list \<Rightarrow> company \<Rightarrow> nat" where
  "leads_count ls c = length (filter (\<lambda>l. company_ref l = Some (domain c)) ls)"

definition domain_col :: "company \<Rightarrow> sqlval" where
  "domain_col c = Text (domain c)"

definition name_sort :: "company \<Rightarrow> sqlval" where
  "name_sort c = Lower (Coalesce (stored (getattr c ''company_name'')) (Text (domain c)))"

definition domain_sort :: "company \<Rightarrow> sqlval" where
  "domain_sort c = Lower (Text (domain c))"

definition industry_sort :: "company \<Rightarrow> sqlval" where
  "industry_sort c = Lower (Coalesce (stored (getattr c ''industry'')) (Text []))"

definition size_sort :: "company \<Rightarrow> sqlval" where
  "size_sort c = Coalesce (stored (getattr c ''company_size'')) (Num (- 1))"

definition leads_count_col :: "lead list \<Rightarrow> company \<Rightarrow> sqlval" where
  "leads_count_col ls c = Num (int (leads_count ls c))"

definition company_name_col :: "company \<Rightarrow> sqlval" where
  "company_name_col c = stored (getattr c ''company_name'')"

text \<open>
  The \<^verbatim>\<open>if sort_key: ... else: ...\<close> that picks the \<^verbatim>\<open>order_by\<close>. A key that passes the
  allow-list matches one of the five branches.
\<close>

definition company_order :: "lead list \<Rightarrow> string \<Rightarrow> string \<Rightarrow> company criteria" where
  "company_order ls key dir =
     (if key \<noteq> [] then
        let prefix = prefix_of dir in
        if key = ''name'' then [(prefix, name_sort), (Asc, domain_col)]
        else if key = ''domain'' then [(prefix, domain_sort)]
        else if key = ''industry'' then [(prefix, industry_sort), (Asc, domain_col)]
        else if key = ''size'' then [(prefix, size_sort), (Asc, domain_col)]
        else if key = ''leads'' then [(prefix, leads_count_col ls), (Asc, domain_col)]
        else []
      else [(Desc, company_name_col)])"

text \<open>
  The annotation \<^verbatim>\<open>Count('leads')\<close> groups the query by the company's key, and the
  grouped rows reach the sort in the order of the key.
\<close>

definition by_domain :: "company list \<Rightarrow> company list" where
  "by_domain cs = order_by [(Asc, domain_col)] cs"

text \<open>
  The view from the sorting on; \<open>companies\<close> is the table as the search filter has
  left it, \<open>ls\<close> the leads counted by the annotation.
\<close>

definition company_list :: "pystr \<Rightarrow> querydict \<Rightarrow> company list \<Rightarrow> lead list \<Rightarrow> company listing" where
  "company_list U GET companies ls =
     (let rows = order_by (company_order ls (company_sort_key U GET) (company_sort_dir U GET))
                   (by_domain companies)
      in \<lparr>queryset = rows, page_obj = paginate U GET rows,
          sort_key = company_sort_key U GET, sort_dir = company_sort_dir U GET\<rparr>)"

subsection \<open>\<^verbatim>\<open>lead_list\<close>\<close>

definition lead_sort_key :: "pystr \<Rightarrow> querydict \<Rightarrow> string" where
  "lead_sort_key U GET =
     (let sort_key = param U GET ''sort'' in
      if sort_key \<notin> set [''name'', ''job_title'', ''email'', ''company'', ''score'', ''stage'']
      then [] else sort_key)"

text \<open>\<^verbatim>\<open>_default_dir_for\<close> of \<^verbatim>\<open>lead_list\<close>.\<close>

definition lead_default_dir_for :: "string \<Rightarrow> string" where
  "lead_default_dir_for key = (if key \<in> set [''score'', ''stage''] then ''desc'' else ''asc'')"

definition lead_sort_dir :: "pystr \<Rightarrow> querydict \<Rightarrow> string" where
  "lead_sort_dir U GET =
     (let sort_dir = param U GET ''dir'' in
      if lead_sort_key U GET \<noteq> [] then lead_default_dir_for (lead_sort_key U GET) else sort_dir)"

definition email_col :: "lead \<Rightarrow> sqlval" where
  "email_col l = Text (email l)"

definition first_name_sort :: "lead \<Rightarrow> sqlval" where
  "first_name_sort l = Lower (Coalesce (stored (lattrs l ''pdl_first_name'')) (Text []))"

definition last_name_sort :: "lead \<Rightarrow> sqlval" where
  "last_name_sort l = Lower (Coalesce (stored (lattrs l ''pdl_last_name'')) (Text []))"

definition job_title_sort :: "lead \<Rightarrow> sqlval" where
  "job_title_sort l = Lower (Coalesce (stored (lattrs l ''pdl_job_title'')) (Text []))"

definition email_sort :: "lead \<Rightarrow> sqlval" where
  "email_sort l = Lower (Text (email l))"

text \<open>\<^verbatim>\<open>company__company_name\<close> and \<^verbatim>\<open>company__domain\<close> through the nullable reference.\<close>

definition company_name_of :: "company list \<Rightarrow> lead \<Rightarrow> sqlval" where
  "company_name_of cs l =
     (case company_ref l of
        None \<Rightarrow> Null
      | Some d \<Rightarrow>
          (case find (\<lambda>c. domain c = d) cs of
             None \<Rightarrow> Null
           | Some c \<Rightarrow> stored (getattr c ''company_name'')))"

definition company_domain_of :: "lead \<Rightarrow> sqlval" where
  "company_domain_of l = (case company_ref l of None \<Rightarrow> Null | Some d \<Rightarrow> Text d)"

definition company_sort :: "company list \<Rightarrow> lead \<Rightarrow> sqlval" where
  "company_sort cs l = Lower (Coalesce (company_name_of cs l) (company_domain_of l))"

definition lead_score_col :: "lead \<Rightarrow> sqlval" where
  "lead_score_col l = stored (lattrs l ''lead_score'')"

definition stage_rank :: "lead \<Rightarrow> sqlval" where
  "stage_rank l =
     (let lead_stage = stored (lattrs l ''lead_stage'') in
      if lead_stage = Text ''low'' then Num 0
      else if lead_stage = Text ''medium'' then Num 1
      else if lead_stage = Text ''high'' then Num 2
      else if lead_stage = Text ''very_high'' then Num 3
      else if lead_stage = Text ''enterprise'' then Num 4
      else Num (- 1))"

text \<open>Without a sort key \<^verbatim>\<open>lead_list\<close> calls no \<^verbatim>\<open>order_by\<close>: no criterion at all.\<close>

definition lead_order :: "company list \<Rightarrow> string \<Rightarrow> string \<Rightarrow> lead criteria" where
  "lead_order cs key dir =
     (if key \<noteq> [] then
        let prefix = prefix_of dir in
        if key = ''name'' then [(prefix, first_name_sort), (prefix, last_name_sort), (Asc, email_col)]
        else if key = ''job_title'' then [(prefix, job_title_sort), (Asc, email_col)]
        else if key = ''email'' then [(prefix, email_sort)]
        else if key = ''company'' then [(prefix, company_sort cs), (Asc, email_col)]
        else if key = ''score'' then [(prefix, lead_score_col), (Asc, email_col)]
        else if key = ''stage'' then [(prefix, stage_rank), (Asc, email_col)]
        else []
      else [])"

text \<open>
  The view from the sorting on; \<open>ls\<close> is the lead table as the filters have left it,
  in the order the storage holds the rows, \<open>cs\<close> the companies the leads refer to.
\<close>

definition lead_list :: "pystr \<Rightarrow> querydict \<Rightarrow> lead list \<Rightarrow> company list \<Rightarrow> lead listing" where
  "lead_list U GET ls cs =
     (let rows = order_by (lead_order cs (lead_sort_key U GET) (lead_sort_dir U GET)) ls
      in \<lparr>queryset = rows, page_obj = paginate U GET rows,
          sort_key = lead_sort_key U GET, sort_dir = lead_sort_dir U GET\<rparr>)"

subsection \<open>The fixed direction of each sort key\<close>

text \<open>
  The ordering of each key as the specification gives it: a direction per key that no
  request changes (companies: size and leads descending, the others ascending; leads:
  score and stage descending, the others ascending).
\<close>

definition company_fixed_order :: "lead list \<Rightarrow> string \<Rightarrow> company criteria" where
  "company_fixed_order ls key =
     (if key = ''name'' then [(Asc, name_sort), (Asc, domain_col)]
      else if key = ''domain'' then [(Asc, domain_sort)]
      else if key = ''industry'' then [(Asc, industry_sort), (Asc, domain_col)]
      else if key = ''size'' then [(Desc, size_sort), (Asc, domain_col)]
      else if key = ''leads'' then [(Desc, leads_count_col ls), (Asc, domain_col)]
      else [(Desc, company_name_col)])"

definition lead_fixed_order :: "company list \<Rightarrow> string \<Rightarrow> lead criteria" where
  "lead_fixed_order cs key =
     (if key = ''name'' then [(Asc, first_name_sort), (Asc, last_name_sort), (Asc, email_col)]
      else if key = ''job_title'' then [(Asc, job_title_sort), (Asc, email_col)]
      else if key = ''email'' then [(Asc, email_sort)]
      else if key = ''company'' then [(Asc, company_sort cs), (Asc, email_col)]
      else if key = ''score'' then [(Desc, lead_score_col), (Asc, email_col)]
      else if key = ''stage'' then [(Desc, stage_rank), (Asc, email_col)]
      else [])"

section \<open>Tags and bulk actions on leads\<close>

text \<open>
  Modelled from the spec: the tables behind the model classes, which are not among the
  sources. Leads are keyed by their email address; a tag (\<^verbatim>\<open>LeadTag\<close>) has a numeric key
  and a name; the many-to-many relation \<^verbatim>\<open>Lead.tags\<close> is a table of pairs of a lead's key
  and a tag's key.
\<close>

record tag =
  tag_pk :: nat
  tag_name :: string

record crm =
  leads :: "lead list"
  tags :: "tag list"
  lead_tags :: "(string \<times> nat) list"

text \<open>\<^verbatim>\<open>LeadTag.objects.get_or_create(name=n)\<close>; a new row gets a fresh key.\<close>

definition get_or_create :: "string \<Rightarrow> tag list \<Rightarrow> tag \<times> tag list" where
  "get_or_create n ts =
     (case find (\<lambda>t. tag_name t = n) ts of
        Some t \<Rightarrow> (t, ts)
      | None \<Rightarrow>
          (let t = \<lparr>tag_pk = Suc (fold max (map tag_pk ts) 0), tag_name = n\<rparr> in (t, ts @ [t])))"

text \<open>\<^verbatim>\<open>lead.tags.add(tag)\<close> inserts the pair unless the relation has it.\<close>

definition tags_add :: "lead \<Rightarrow> tag \<Rightarrow> (string \<times> nat) list \<Rightarrow> (string \<times> nat) list" where
  "tags_add l t rel =
     (if (email l, tag_pk t) \<in> set rel then rel else rel @ [(email l, tag_pk t)])"

text \<open>The rows of a lead query that goes through the primary key come in the order of the key.\<close>

definition by_email :: "lead list \<Rightarrow> lead list" where
  "by_email ls = order_by [(Asc, email_col)] ls"

text \<open>\<^verbatim>\<open>Lead.objects.filter(pk__in=selected_ids)\<close>.\<close>

definition leads_in :: "string list \<Rightarrow> lead list \<Rightarrow> lead list" where
  "leads_in selected_ids ls = by_email (filter (\<lambda>l. email l \<in> set selected_ids) ls)"

text \<open>The body of the loop of \<^verbatim>\<open>bulk_apply_tag\<close>; the state is the relation and \<^verbatim>\<open>updated\<close>.\<close>

definition apply_step :: "tag \<Rightarrow> (string \<times> nat) list \<times> nat \<Rightarrow> lead \<Rightarrow> (string \<times> nat) list \<times> nat" where
  "apply_step t st l = (tags_add l t (fst st), snd st + 1)"

definition applied_message :: "string \<Rightarrow> nat \<Rightarrow> string" where
  "applied_message name updated =
     ''Applied tag '' @ [CHR 0x22] @ name @ [CHR 0x22] @ '' to '' @ str_nat updated @ '' lead(s).''"

definition bulk_apply_tag :: "pystr \<Rightarrow> string \<Rightarrow> querydict \<Rightarrow> crm \<Rightarrow> response \<times> crm" where
  "bulk_apply_tag U method POST db =
     (if method \<noteq> ''POST'' then (\<lparr>flash = [], redirect = ''leads:lead_list''\<rparr>, db)
      else
        let selected_ids = getlist POST ''selected_leads'';
            tag_name = strip U (case qd_get POST ''tag_name'' of None \<Rightarrow> [] | Some v \<Rightarrow> v) in
        if selected_ids = [] then
          (\<lparr>flash = [(Error, ''No leads selected.'')], redirect = ''leads:lead_list''\<rparr>, db)
        else if tag_name = [] then
          (\<lparr>flash = [(Error, ''Tag name is required.'')], redirect = ''leads:lead_list''\<rparr>, db)
        else
          let gc = get_or_create (lower U (strip U tag_name)) (tags db);
              st = foldl (apply_step (fst gc)) (lead_tags db, 0) (leads_in selected_ids (leads db))
          in (\<lparr>flash = [(Success, applied_message (tag.tag_name (fst gc)) (snd st))],
               redirect = ''leads:lead_list''\<rparr>,
              db\<lparr>tags := snd gc, lead_tags := fst st\<rparr>))"

subsection \<open>Mailing-list sync\<close>














section \<open>Example data\<close>

definition keys_present :: "string \<Rightarrow> string option" where
  "keys_present = [''GENAI_API_KEY'' \<mapsto> ''g-key'', ''OPENAI_API_KEY'' \<mapsto> ''o-key'']"

definition keys_partial :: "string \<Rightarrow> string option" where
  "keys_partial = [''GENAI_API_KEY'' \<mapsto> ''g-key'', ''OPENAI_API_KEY'' \<mapsto> []]"

definition blank_company :: "string \<Rightarrow> company" where
  "blank_company d = \<lparr>domain = d, attrs = (\<lambda>f. PNone)\<rparr>"

definition acme :: company where
  "acme = \<lparr>domain = ''acme.com'',
            attrs = (\<lambda>f. PNone)(''linkedin'' := PStr ''in/acme'', ''industry'' := PStr [],
                                 ''company_size'' := PInt 0)\<rparr>"

definition acme_data :: pydict where
  "acme_data = [(''linkedin'', PStr ''in/other''), (''industry'', PStr ''Tools''),
                (''company_size'', PInt 40), (''city'', PStr [])]"

definition blank_lead :: "string \<Rightarrow> lead" where
  "blank_lead e = \<lparr>email = e, company_ref = None, lattrs = (\<lambda>f. PNone)\<rparr>"

text \<open>A company collaborator that raises for one domain and fills the city otherwise.\<close>

definition saves :: "company \<Rightarrow> unit outcome" where
  "saves c = Returned ()"

definition flaky_company :: "string \<Rightarrow> pydict option outcome" where
  "flaky_company d = (if d = ''b.com'' then Raised else Returned (Some [(''city'', PStr ''Rome'')]))"

text \<open>A lead collaborator that raises for one address and reports a skip otherwise.\<close>

definition flaky_lead :: "lead \<Rightarrow> bool \<Rightarrow> pydict option outcome \<times> lead" where
  "flaky_lead l overwrite =
     (if email l = ''b@x.io'' then (Raised, l) else (Returned (Some [(''skipped'', PBool True)]), l))"

definition twelve :: "nat list" where
  "twelve = [1, 2, 3, 4, 5, 6, 7, 8, 9, 10, 11, 12]"

definition three_leads :: crm where
  "three_leads = \<lparr>leads = [blank_lead ''a@x.io'', blank_lead ''b@x.io'', blank_lead ''c@x.io''],
                   tags = [], lead_tags = []\<rparr>"

definition vip_post :: querydict where
  "vip_post = [(''selected_leads'', ''a@x.io''), (''selected_leads'', ''ghost@x.io''),
               (''selected_leads'', ''c@x.io''), (''tag_name'', ''  VIP  '')]"

definition ghost_post :: querydict where
  "ghost_post = [(''selected_leads'', ''ghost@x.io''), (''selected_leads'', ''nobody@x.io''),
                 (''tag_name'', ''Cold'')]"







definition sized :: "string \<Rightarrow> int \<Rightarrow> company" where
  "sized d n = \<lparr>domain = d, attrs = (\<lambda>f. PNone)(''company_size'' := PInt n)\<rparr>"

definition scored :: "string \<Rightarrow> int \<Rightarrow> lead" where
  "scored e n = \<lparr>email = e, company_ref = None, lattrs = (\<lambda>f. PNone)(''lead_score'' := PInt n)\<rparr>"



text \<open>A company collaborator that knows one company, and another LinkedIn link for it.\<close>

definition acme_lookup :: "string \<Rightarrow> pydict option outcome" where
  "acme_lookup d = (if d = ''acme.com'' then Returned (Some acme_data) else Returned None)"

text \<open>A company with every enrichable field filled.\<close>

definition full_company :: company where
  "full_company = \<lparr>domain = ''full.com'', attrs = (\<lambda>f. if f = ''company_size'' then PInt 7 else PStr ''x'')\<rparr>"

text \<open>A lead with every enrichable field filled.\<close>

definition full_lead :: lead where
  "full_lead = \<lparr>email = ''full@x.io'', company_ref = None, lattrs = (\<lambda>f. PStr ''x'')\<rparr>"

text \<open>
  Tables for the examples. The strings of the examples are ASCII and short, so the
  tables are never consulted there.
\<close>

definition ascii_only :: pystr where
  "ascii_only = \<lparr>uni_strip = (\<lambda>s. s), uni_lower = (\<lambda>s. s), uni_int = (\<lambda>s. None)\<rparr>"

section \<open>The sort of the database\<close>

subsection \<open>Comparing column values\<close>

lemma str_less_irrefl: "\<not> str_less s s"
  by (induction s) auto

lemma str_less_total: "\<not> str_less s t \<Longrightarrow> s \<noteq> t \<Longrightarrow> str_less t s"
proof (induction s t rule: str_less.induct)
  case (4 x xs y ys)
  then show ?case
    by (cases "x = y") (auto simp: not_less le_less)
qed auto

lemma str_less_trans: "str_less s t \<Longrightarrow> str_less t u \<Longrightarrow> str_less s u"
proof (induction s t arbitrary: u rule: str_less.induct)
  case (4 x xs y ys)
  then show ?case
    by (cases u) auto
qed (auto elim: str_less.elims)

lemma str_less_asym: "str_less s t \<Longrightarrow> \<not> str_less t s"
  using str_less_trans str_less_irrefl by blast

lemma sql_cmp_refl: "sql_cmp a a = EQUAL"
  by (cases a) (simp_all add: str_less_irrefl)

lemma sql_cmp_eq: "sql_cmp a b = EQUAL \<Longrightarrow> a = b"
  by (cases a; cases b) (simp_all split: if_splits)

lemma sql_cmp_flip: "sql_cmp b a = flip (sql_cmp a b)"
  by (cases a; cases b) (auto simp: str_less_irrefl dest: str_less_asym str_less_total)

lemma sql_cmp_trans: "sql_cmp a b = LESS \<Longrightarrow> sql_cmp b c = LESS \<Longrightarrow> sql_cmp a c = LESS"
  by (cases a; cases b; cases c) (auto split: if_splits dest: str_less_trans)

lemma row_cmp_Cons:
  "row_cmp (dc # cs) a b = (case col_cmp dc a b of EQUAL \<Rightarrow> row_cmp cs a b | LESS \<Rightarrow> LESS | GREATER \<Rightarrow> GREATER)"
  by simp

lemma flip_iff: "flip c = LESS \<longleftrightarrow> c = GREATER" "flip c = GREATER \<longleftrightarrow> c = LESS"
  "flip c = EQUAL \<longleftrightarrow> c = EQUAL"
  by (cases c; simp)+

lemma flip_flip: "flip (flip c) = c"
  by (cases c) simp_all

lemma col_cmp_flip: "col_cmp dc b a = flip (col_cmp dc a b)"
  unfolding col_cmp_def using sql_cmp_flip [of "snd dc a" "snd dc b"] by (simp add: flip_flip)

lemma col_cmp_eq: "col_cmp dc a b = EQUAL \<Longrightarrow> snd dc a = snd dc b"
  by (cases "sql_cmp (snd dc a) (snd dc b)") (auto simp: col_cmp_def dest: sql_cmp_eq split: if_splits)

lemma col_cmp_same: "snd dc a = snd dc b \<Longrightarrow> col_cmp dc a c = col_cmp dc b c"
  by (simp add: col_cmp_def)

lemma col_cmp_same2: "snd dc b = snd dc c \<Longrightarrow> col_cmp dc a b = col_cmp dc a c"
  by (simp add: col_cmp_def)

lemma sql_cmp_trans_gt: "sql_cmp a b = GREATER \<Longrightarrow> sql_cmp b c = GREATER \<Longrightarrow> sql_cmp a c = GREATER"
proof -
  assume ab: "sql_cmp a b = GREATER" and bc: "sql_cmp b c = GREATER"
  have "sql_cmp c b = LESS"
    using sql_cmp_flip [of b c] bc by (cases "sql_cmp c b") simp_all
  moreover have "sql_cmp b a = LESS"
    using sql_cmp_flip [of a b] ab by (cases "sql_cmp b a") simp_all
  ultimately have "sql_cmp c a = LESS" by (rule sql_cmp_trans)
  then show ?thesis
    using sql_cmp_flip [of a c] by simp
qed

lemma col_cmp_trans: "col_cmp dc a b = LESS \<Longrightarrow> col_cmp dc b c = LESS \<Longrightarrow> col_cmp dc a c = LESS"
proof (cases "fst dc = Desc")
  case True
  assume "col_cmp dc a b = LESS" "col_cmp dc b c = LESS"
  with True have "sql_cmp (snd dc a) (snd dc b) = GREATER" "sql_cmp (snd dc b) (snd dc c) = GREATER"
    by (simp_all add: col_cmp_def flip_iff)
  then have "sql_cmp (snd dc a) (snd dc c) = GREATER" by (rule sql_cmp_trans_gt)
  with True show ?thesis by (simp add: col_cmp_def)
next
  case False
  assume "col_cmp dc a b = LESS" "col_cmp dc b c = LESS"
  with False show ?thesis by (auto simp: col_cmp_def dest: sql_cmp_trans)
qed

subsection \<open>Comparing rows\<close>

lemma row_cmp_refl: "row_cmp crit a a = EQUAL"
  by (induction crit) (simp_all add: col_cmp_def sql_cmp_refl)

lemma row_cmp_flip: "row_cmp crit b a = flip (row_cmp crit a b)"
proof (induction crit)
  case Nil
  show ?case by simp
next
  case (Cons dc cs)
  show ?case
    unfolding row_cmp_Cons col_cmp_flip [of dc b a]
    by (cases "col_cmp dc a b") (simp_all add: Cons.IH)
qed

lemma row_le_total: "row_le crit a b \<or> row_le crit b a"
  unfolding row_le_def row_cmp_flip [of crit b a] by (cases "row_cmp crit a b") simp_all

lemma row_le_trans: "row_le crit a b \<Longrightarrow> row_le crit b c \<Longrightarrow> row_le crit a c"
proof (induction crit)
  case Nil
  show ?case by (simp add: row_le_def)
next
  case (Cons dc cs)
  show ?case
  proof (cases "col_cmp dc a b")
    case LESS
    note ab = this
    show ?thesis
    proof (cases "col_cmp dc b c")
      case LESS
      with ab have "col_cmp dc a c = LESS" by (rule col_cmp_trans [rotated -1, rotated])
      then show ?thesis by (simp add: row_le_def row_cmp_Cons)
    next
      case EQUAL
      then have "col_cmp dc a c = col_cmp dc a b"
        using col_cmp_same2 [OF col_cmp_eq [OF EQUAL], of a] by simp
      with ab show ?thesis by (simp add: row_le_def row_cmp_Cons)
    next
      case GREATER
      with Cons.prems(2) show ?thesis by (simp add: row_le_def row_cmp_Cons)
    qed
  next
    case EQUAL
    then have same: "col_cmp dc a c = col_cmp dc b c"
      by (rule col_cmp_same [OF col_cmp_eq])
    show ?thesis
    proof (cases "col_cmp dc b c")
      case LESS
      with same show ?thesis by (simp add: row_le_def row_cmp_Cons)
    next
      case EQUAL
      with \<open>col_cmp dc a b = EQUAL\<close> same Cons show ?thesis
        by (simp add: row_le_def row_cmp_Cons)
    next
      case GREATER
      with Cons.prems(2) show ?thesis by (simp add: row_le_def row_cmp_Cons)
    qed
  next
    case GREATER
    with Cons.prems(1) show ?thesis by (simp add: row_le_def row_cmp_Cons)
  qed
qed

lemma row_cmp_equal_col: "row_cmp crit a b = EQUAL \<Longrightarrow> dc \<in> set crit \<Longrightarrow> snd dc a = snd dc b"
proof (induction crit)
  case Nil
  then show ?case by simp
next
  case (Cons d cs)
  from Cons.prems(1) have e: "col_cmp d a b = EQUAL" and r: "row_cmp cs a b = EQUAL"
    unfolding row_cmp_Cons by (cases "col_cmp d a b"; simp)+
  from Cons.prems(2) show ?case
    using col_cmp_eq [OF e] Cons.IH [OF r] by auto
qed

subsection \<open>The sorted result\<close>

lemma mset_insert_row: "mset (insert_row crit x xs) = add_mset x (mset xs)"
  by (induction xs) simp_all

lemma mset_order_by: "mset (order_by crit xs) = mset xs"
  by (induction xs) (simp_all add: order_by_def mset_insert_row)

lemma set_order_by: "set (order_by crit xs) = set xs"
  by (metis mset_order_by set_mset_mset)

lemma set_insert_row: "set (insert_row crit x xs) = insert x (set xs)"
  by (induction xs) auto

lemma sorted_insert_row:
  "sorted_wrt (row_le crit) xs \<Longrightarrow> sorted_wrt (row_le crit) (insert_row crit x xs)"
proof (induction xs)
  case Nil
  show ?case by simp
next
  case (Cons y ys)
  show ?case
  proof (cases "row_cmp crit x y = GREATER")
    case True
    then have "row_le crit y x"
      using row_le_total [of crit x y] by (simp add: row_le_def)
    with Cons True show ?thesis
      by (auto simp: set_insert_row)
  next
    case False
    then have xy: "row_le crit x y" by (simp add: row_le_def)
    with Cons.prems have "\<forall>z \<in> set ys. row_le crit x z"
      by (auto intro: row_le_trans)
    with Cons.prems xy False show ?thesis by simp
  qed
qed

lemma sorted_order_by: "sorted_wrt (row_le crit) (order_by crit xs)"
  by (induction xs) (simp_all add: order_by_def sorted_insert_row)

text \<open>Two sorted listings of the same rows agree when no two rows tie.\<close>

lemma sorted_listing_unique:
  assumes "sorted_wrt (row_le crit) xs" and "sorted_wrt (row_le crit) ys" and "mset xs = mset ys"
    and "\<forall>a \<in> set xs. \<forall>b \<in> set xs. row_cmp crit a b = EQUAL \<longrightarrow> a = b"
  shows "xs = ys"
  using assms
proof (induction xs arbitrary: ys)
  case Nil
  then show ?case by simp
next
  case (Cons x xs)
  from Cons.prems(3) obtain y ys' where ys: "ys = y # ys'"
    by (cases ys) auto
  have sets: "set (x # xs) = set ys"
    using Cons.prems(3) by (metis set_mset_mset)
  have "row_le crit x y"
    using Cons.prems(1) sets ys by (cases "y = x") (auto simp: row_le_def row_cmp_refl)
  moreover have "row_le crit y x"
    using Cons.prems(2) sets ys by (cases "y = x") (auto simp: row_le_def row_cmp_refl)
  ultimately have "row_cmp crit x y = EQUAL"
    unfolding row_le_def row_cmp_flip [of crit y x] by (cases "row_cmp crit x y") simp_all
  moreover have "y \<in> set (x # xs)" using sets ys by simp
  ultimately have xy: "x = y"
    using Cons.prems(4) by (metis list.set_intros(1))
  have "xs = ys'"
  proof (rule Cons.IH)
    show "sorted_wrt (row_le crit) xs" using Cons.prems(1) by simp
    show "sorted_wrt (row_le crit) ys'" using Cons.prems(2) ys by simp
    show "mset xs = mset ys'" using Cons.prems(3) ys xy by simp
    show "\<forall>a \<in> set xs. \<forall>b \<in> set xs. row_cmp crit a b = EQUAL \<longrightarrow> a = b"
      using Cons.prems(4) by simp
  qed
  with xy ys show ?case by simp
qed

lemma order_by_determined:
  assumes "mset xs = mset ys"
    and "\<forall>a \<in> set xs. \<forall>b \<in> set xs. row_cmp crit a b = EQUAL \<longrightarrow> a = b"
  shows "order_by crit xs = order_by crit ys"
proof (rule sorted_listing_unique)
  show "sorted_wrt (row_le crit) (order_by crit xs)" "sorted_wrt (row_le crit) (order_by crit ys)"
    by (rule sorted_order_by)+
  show "mset (order_by crit xs) = mset (order_by crit ys)"
    by (simp add: mset_order_by assms(1))
  have "set (order_by crit xs) = set xs"
    by (metis mset_order_by set_mset_mset)
  with assms(2) show "\<forall>a \<in> set (order_by crit xs). \<forall>b \<in> set (order_by crit xs).
      row_cmp crit a b = EQUAL \<longrightarrow> a = b"
    by simp
qed

text \<open>A criterion on a column that tells the rows apart leaves no tie.\<close>

lemma key_breaks_ties:
  assumes "dc \<in> set crit" and "inj_on (snd dc) (set xs)"
  shows "\<forall>a \<in> set xs. \<forall>b \<in> set xs. row_cmp crit a b = EQUAL \<longrightarrow> a = b"
  using row_cmp_equal_col [OF _ assms(1)] assms(2) by (auto dest: inj_onD)

section \<open>Properties of the enrichment merge\<close>

lemma getattr_setattr: "getattr (setattr c f v) g = (if g = f then v else getattr c g)"
  by (simp add: getattr_def setattr_def)

lemma merge_field_fst:
  "getattr (fst (merge_field ow d st f)) g =
     (if g = f \<and> field_written ow (dict_get d f) (getattr (fst st) f) then dict_get d f
      else getattr (fst st) g)"
  by (auto simp: merge_field_def field_written_def Let_def getattr_setattr)

lemma merge_field_snd:
  "snd (merge_field ow d st f) = (snd st \<or> field_written ow (dict_get d f) (getattr (fst st) f))"
  by (auto simp: merge_field_def field_written_def Let_def)

lemma merge_over_Cons:
  "merge_over ow d (f # fs) st = merge_over ow d fs (merge_field ow d st f)"
  by (simp add: merge_over_def)

text \<open>
  Visiting a list of fields leaves in each attribute the collaborator's value when the
  field is in the list and the policy writes it, and the old value otherwise.
\<close>

lemma merge_over_fst:
  "getattr (fst (merge_over ow d fs st)) g =
     (if g \<in> set fs \<and> field_written ow (dict_get d g) (getattr (fst st) g) then dict_get d g
      else getattr (fst st) g)"
proof (induction fs arbitrary: st)
  case Nil
  show ?case by (simp add: merge_over_def)
next
  case (Cons f fs)
  show ?case
    unfolding merge_over_Cons Cons.IH merge_field_fst
    by (auto simp: field_written_def)
qed

lemma merge_over_snd:
  "snd (merge_over ow d fs st) =
     (snd st \<or> list_ex (\<lambda>g. field_written ow (dict_get d g) (getattr (fst st) g)) fs)"
proof (induction fs arbitrary: st)
  case Nil
  show ?case by (simp add: merge_over_def)
next
  case (Cons f fs)
  show ?case
    unfolding merge_over_Cons Cons.IH merge_field_fst merge_field_snd
    by (auto simp: field_written_def list_ex_iff)
qed

lemma merge_fields_updated:
  "snd (merge_fields ow d c) =
     list_ex (\<lambda>g. field_written ow (dict_get d g) (getattr c g)) enrich_fields"
  by (simp add: merge_fields_def merge_over_snd)

lemma acme_vals:
  "getattr acme ''linkedin'' = PStr ''in/acme''" "getattr acme ''industry'' = PStr []"
  "getattr acme ''company_size'' = PInt 0" "getattr acme ''city'' = PNone"
  "dict_get acme_data ''linkedin'' = PStr ''in/other''"
  "dict_get acme_data ''industry'' = PStr ''Tools''"
  "dict_get acme_data ''company_size'' = PInt 40" "dict_get acme_data ''city'' = PStr []"
  by (simp_all add: acme_def acme_data_def getattr_def dict_get_def)

text \<open>
  Claim C1. After the merge loop of \<^verbatim>\<open>company_enrich\<close>, an attribute holds the value the
  collaborator returned exactly when it is one of the fifteen enrichable fields, the
  returned value is neither \<^verbatim>\<open>None\<close> nor the empty string, and overwrite mode is on or
  the current value is falsy; otherwise it keeps its current value. So fill mode never
  changes a populated field and overwrite mode replaces every field for which a
  non-empty value came back. The flag \<^verbatim>\<open>updated\<close> is set exactly when some field is
  written.
\<close>

theorem company_enrich_merge_policy:
  "getattr (fst (merge_fields overwrite enriched_data c)) f =
     (if f \<in> set enrich_fields \<and> field_written overwrite (dict_get enriched_data f) (getattr c f)
      then dict_get enriched_data f else getattr c f)
   \<and> snd (merge_fields overwrite enriched_data c) =
     list_ex (\<lambda>g. field_written overwrite (dict_get enriched_data g) (getattr c g)) enrich_fields"
  by (simp add: merge_fields_def merge_over_fst merge_over_snd)

text \<open>
  The policy at work on a company with a LinkedIn link, an empty industry and size 0:
  fill mode keeps the link and fills industry and size; overwrite mode replaces the
  link; an empty returned city is never written.
\<close>

theorem company_enrich_merge_policy_witness:
  "getattr (fst (merge_fields False acme_data acme)) ''linkedin'' = PStr ''in/acme''
   \<and> getattr (fst (merge_fields True acme_data acme)) ''linkedin'' = PStr ''in/other''
   \<and> getattr (fst (merge_fields False acme_data acme)) ''industry'' = PStr ''Tools''
   \<and> getattr (fst (merge_fields False acme_data acme)) ''company_size'' = PInt 40
   \<and> getattr (fst (merge_fields True acme_data acme)) ''city'' = PNone"
  using company_enrich_merge_policy [of False acme_data acme "''linkedin''"]
    company_enrich_merge_policy [of True acme_data acme "''linkedin''"]
    company_enrich_merge_policy [of False acme_data acme "''industry''"]
    company_enrich_merge_policy [of False acme_data acme "''company_size''"]
    company_enrich_merge_policy [of True acme_data acme "''city''"]
  by (simp add: acme_vals field_written_def enrich_fields_def)

section \<open>Properties of the enrichment runs\<close>

lemma company_step_escape:
  "company_verdict e sv ow c = Escaped \<Longrightarrow>
     company_step e sv ow s c = (s\<lparr>calls := calls s @ [domain c]\<rparr>, True)"
  by (auto simp: company_step_def company_verdict_def Let_def merge_fields_updated
      split: outcome.splits option.splits if_splits)

lemma company_step_goes_on:
  assumes "company_verdict e sv ow c \<noteq> Escaped"
  shows "\<not> snd (company_step e sv ow s c)"
    and "calls (fst (company_step e sv ow s c)) = calls s @ [domain c]"
    and "enriched (fst (company_step e sv ow s c)) =
       enriched s + (if company_verdict e sv ow c = Enriched then 1 else 0)"
    and "skipped (fst (company_step e sv ow s c)) =
       skipped s + (if company_verdict e sv ow c = Skipped then 1 else 0)"
    and "errors (fst (company_step e sv ow s c)) =
       errors s + (if company_verdict e sv ow c = Errored then 1 else 0)"
    and "rows (fst (company_step e sv ow s c)) =
       (if company_verdict e sv ow c = Enriched then save_company (merged_company e ow c) (rows s)
        else rows s)"
  using assms
  by (auto simp: company_step_def company_verdict_def merged_company_def Let_def merge_fields_updated
      split: outcome.splits option.splits if_splits)

lemma visited_Cons:
  "visited f (x # xs) = (if f x = Escaped then [] else x # visited f xs)"
  "breaking f (x # xs) = (if f x = Escaped then [x] else breaking f xs)"
  by (simp_all add: visited_def breaking_def)

lemma visited_Nil: "visited f [] = []" "breaking f [] = []"
  by (simp_all add: visited_def breaking_def)

lemma company_loop:
  "snd (for_each (company_step e sv ow) s cs) = (breaking (company_verdict e sv ow) cs \<noteq> [])
   \<and> calls (fst (for_each (company_step e sv ow) s cs)) =
       calls s @ map domain (visited (company_verdict e sv ow) cs @ breaking (company_verdict e sv ow) cs)
   \<and> enriched (fst (for_each (company_step e sv ow) s cs)) =
       enriched s + tally (company_verdict e sv ow) Enriched (visited (company_verdict e sv ow) cs)
   \<and> skipped (fst (for_each (company_step e sv ow) s cs)) =
       skipped s + tally (company_verdict e sv ow) Skipped (visited (company_verdict e sv ow) cs)
   \<and> errors (fst (for_each (company_step e sv ow) s cs)) =
       errors s + tally (company_verdict e sv ow) Errored (visited (company_verdict e sv ow) cs)"
proof (induction cs arbitrary: s)
  case Nil
  show ?case by (simp add: visited_Nil tally_def)
next
  case (Cons c cs)
  show ?case
  proof (cases "company_verdict e sv ow c = Escaped")
    case True
    then show ?thesis
      by (simp add: company_step_escape visited_Cons tally_def)
  next
    case False
    note go = company_step_goes_on [OF False, of s]
    from go(1) have step: "for_each (company_step e sv ow) s (c # cs) =
        for_each (company_step e sv ow) (fst (company_step e sv ow s c)) cs"
      by (simp add: Let_def)
    show ?thesis
      unfolding step using False
      by (simp add: Cons.IH go visited_Cons tally_def)
  qed
qed

lemma lead_step_escape:
  "lead_verdict el ow l = Escaped \<Longrightarrow>
     snd (lead_step el ow s l) \<and> calls (fst (lead_step el ow s l)) = calls s @ [(l, ow)]
     \<and> enriched (fst (lead_step el ow s l)) = enriched s
     \<and> skipped (fst (lead_step el ow s l)) = skipped s
     \<and> errors (fst (lead_step el ow s l)) = errors s"
  by (auto simp: lead_step_def lead_verdict_def Let_def split: outcome.splits option.splits if_splits)

lemma lead_step_goes_on:
  assumes "lead_verdict el ow l \<noteq> Escaped"
  shows "\<not> snd (lead_step el ow s l)"
    and "calls (fst (lead_step el ow s l)) = calls s @ [(l, ow)]"
    and "enriched (fst (lead_step el ow s l)) =
       enriched s + (if lead_verdict el ow l = Enriched then 1 else 0)"
    and "skipped (fst (lead_step el ow s l)) =
       skipped s + (if lead_verdict el ow l = Skipped then 1 else 0)"
    and "errors (fst (lead_step el ow s l)) =
       errors s + (if lead_verdict el ow l = Errored then 1 else 0)"
  using assms
  by (auto simp: lead_step_def lead_verdict_def Let_def split: outcome.splits option.splits if_splits)

lemma lead_loop:
  "snd (for_each (lead_step el ow) s ls) = (breaking (lead_verdict el ow) ls \<noteq> [])
   \<and> calls (fst (for_each (lead_step el ow) s ls)) =
       calls s @ map (\<lambda>l. (l, ow)) (visited (lead_verdict el ow) ls @ breaking (lead_verdict el ow) ls)
   \<and> enriched (fst (for_each (lead_step el ow) s ls)) =
       enriched s + tally (lead_verdict el ow) Enriched (visited (lead_verdict el ow) ls)
   \<and> skipped (fst (for_each (lead_step el ow) s ls)) =
       skipped s + tally (lead_verdict el ow) Skipped (visited (lead_verdict el ow) ls)
   \<and> errors (fst (for_each (lead_step el ow) s ls)) =
       errors s + tally (lead_verdict el ow) Errored (visited (lead_verdict el ow) ls)"
proof (induction ls arbitrary: s)
  case Nil
  show ?case by (simp add: visited_Nil tally_def)
next
  case (Cons l ls)
  show ?case
  proof (cases "lead_verdict el ow l = Escaped")
    case True
    with lead_step_escape [OF True, of s] show ?thesis
      by (simp add: Let_def visited_Cons tally_def)
  next
    case False
    note go = lead_step_goes_on [OF False, of s]
    from go(1) have step: "for_each (lead_step el ow) s (l # ls) =
        for_each (lead_step el ow) (fst (lead_step el ow s l)) ls"
      by (simp add: Let_def)
    show ?thesis
      unfolding step using False
      by (simp add: Cons.IH go visited_Cons tally_def)
  qed
qed


lemma visited_all: "(\<forall>x \<in> set xs. f x \<noteq> Escaped) \<Longrightarrow> visited f xs = xs \<and> breaking f xs = []"
  by (simp add: visited_def breaking_def)




lemma company_enrich_run:
  assumes "enable_enrichment getenv" and "company_candidates (overwrite_mode GET) db \<noteq> []"
  shows "company_enrich getenv e sv GET db =
     (let r = for_each (company_step e sv (overwrite_mode GET))
                \<lparr>enriched = 0, skipped = 0, errors = 0, calls = [], rows = db\<rparr>
                (company_candidates (overwrite_mode GET) db)
      in (if snd r then Uncaught
          else Responded \<lparr>flash = [(Success, summary ''Company'' ''company'' (fst r))],
                          redirect = ''companies:company_list''\<rparr>, fst r))"
  using assms by (simp add: company_enrich_def Let_def)

lemma lead_enrich_run:
  assumes "enable_enrichment getenv" and "lead_candidates (overwrite_mode GET) db \<noteq> []"
  shows "lead_enrich getenv el GET db =
     (let r = for_each (lead_step el (overwrite_mode GET))
                \<lparr>enriched = 0, skipped = 0, errors = 0, calls = [], rows = db\<rparr>
                (lead_candidates (overwrite_mode GET) db)
      in (if snd r then Uncaught
          else Responded \<lparr>flash = [(Success, summary ''Lead'' ''lead'' (fst r))],
                          redirect = ''leads:lead_list''\<rparr>, fst r))"
  using assms by (simp add: lead_enrich_def Let_def)


lemma keys_present_enabled: "enable_enrichment keys_present"
  by (simp add: enable_enrichment_def keys_present_def)



lemma no_mode: "overwrite_mode [] = False"
  by (simp add: overwrite_mode_def qd_get_default_def qd_get_def getlist_def)

lemma blank_company_fields: "domain (blank_company d) = d" "getattr (blank_company d) f = PNone"
  by (simp_all add: blank_company_def getattr_def)

lemma blank_lead_fields: "email (blank_lead e) = e" "lattrs (blank_lead e) f = PNone"
  by (simp_all add: blank_lead_def)

lemma city_verdict:
  "company_verdict (\<lambda>d. Returned (Some [(''city'', PStr ''Rome'')])) saves False (blank_company d) = Enriched"
  by (simp add: company_verdict_def saves_def blank_company_fields field_written_def dict_get_def
      enrich_fields_def)





section \<open>The credential gate\<close>

text \<open>
  Claim C8. When one of the two credentials \<^verbatim>\<open>GENAI_API_KEY\<close> and \<^verbatim>\<open>OPENAI_API_KEY\<close> is
  unset or empty, both \<^verbatim>\<open>company_enrich\<close> and \<^verbatim>\<open>lead_enrich\<close> answer with the
  disabled-feature message and the redirect to their list view, call no collaborator,
  count nothing and leave every stored row as it was.
\<close>

theorem enrichment_gate:
  assumes "getenv ''GENAI_API_KEY'' = None \<or> getenv ''GENAI_API_KEY'' = Some []
     \<or> getenv ''OPENAI_API_KEY'' = None \<or> getenv ''OPENAI_API_KEY'' = Some []"
  shows "company_enrich getenv enrich_company save GET db =
      (Responded \<lparr>flash = [(Error, disabled_message)], redirect = ''companies:company_list''\<rparr>,
       \<lparr>enriched = 0, skipped = 0, errors = 0, calls = [], rows = db\<rparr>)
   \<and> lead_enrich getenv enrich_lead GET ldb =
      (Responded \<lparr>flash = [(Error, disabled_message)], redirect = ''leads:lead_list''\<rparr>,
       \<lparr>enriched = 0, skipped = 0, errors = 0, calls = [], rows = ldb\<rparr>)"
proof -
  have "\<not> enable_enrichment getenv"
    using assms by (auto simp: enable_enrichment_def split: option.splits)
  then show ?thesis
    by (simp add: company_enrich_def lead_enrich_def)
qed

text \<open>The gate with an empty \<^verbatim>\<open>OPENAI_API_KEY\<close>, even in overwrite mode.\<close>

theorem enrichment_gate_witness:
  "keys_partial ''OPENAI_API_KEY'' = Some []
   \<and> snd (company_enrich keys_partial flaky_company saves [(''mode'', ''all'')]
        [blank_company ''a.com'']) =
      \<lparr>enriched = 0, skipped = 0, errors = 0, calls = [], rows = [blank_company ''a.com'']\<rparr>
   \<and> snd (lead_enrich keys_partial flaky_lead [(''mode'', ''all'')] [blank_lead ''a@x.io'']) =
      \<lparr>enriched = 0, skipped = 0, errors = 0, calls = [], rows = [blank_lead ''a@x.io'']\<rparr>"
proof -
  have k: "keys_partial ''OPENAI_API_KEY'' = Some []"
    by (simp add: keys_partial_def)
  then have "keys_partial ''GENAI_API_KEY'' = None \<or> keys_partial ''GENAI_API_KEY'' = Some []
     \<or> keys_partial ''OPENAI_API_KEY'' = None \<or> keys_partial ''OPENAI_API_KEY'' = Some []"
    by simp
  from enrichment_gate [OF this] k show ?thesis by simp
qed

section \<open>The enrichment mode\<close>

lemma setattr_domain: "domain (setattr c f v) = domain c"
  by (simp add: setattr_def)

lemma merge_over_domain: "domain (fst (merge_over ow d fs st)) = domain (fst st)"
  by (induction fs arbitrary: st) (simp_all add: merge_over_def merge_field_def Let_def setattr_domain)

lemma merged_company_domain: "domain (merged_company e ow c) = domain c"
  by (simp add: merged_company_def merge_fields_def merge_over_domain split: outcome.splits option.splits)

text \<open>
  The rows a run leaves: a row is replaced when a visited candidate of its key was
  counted as enriched.
\<close>

lemma company_loop_rows:
  assumes "distinct (map domain cs)"
  shows "rows (fst (for_each (company_step e sv ow) s cs)) =
     map (\<lambda>x. case find (\<lambda>c. domain c = domain x \<and> company_verdict e sv ow c = Enriched)
                      (visited (company_verdict e sv ow) cs) of
                 Some c \<Rightarrow> merged_company e ow c
               | None \<Rightarrow> x) (rows s)"
  using assms
proof (induction cs arbitrary: s)
  case Nil
  show ?case by (simp add: visited_Nil)
next
  case (Cons c cs)
  let ?cv = "company_verdict e sv ow"
  show ?case
  proof (cases "?cv c = Escaped")
    case True
    then show ?thesis
      by (simp add: company_step_escape visited_Cons)
  next
    case False
    note go = company_step_goes_on [OF False, of s]
    from go(1) have step: "for_each (company_step e sv ow) s (c # cs) =
        for_each (company_step e sv ow) (fst (company_step e sv ow s c)) cs"
      by (simp add: Let_def)
    from Cons.prems have d: "distinct (map domain cs)" and fresh: "domain c \<notin> domain ` set cs"
      by simp_all
    have none: "find (\<lambda>c'. domain c' = domain c \<and> ?cv c' = Enriched) (visited ?cv cs) = None"
    proof -
      have "set (visited ?cv cs) \<subseteq> set cs"
        by (auto simp: visited_def dest: set_takeWhileD)
      show ?thesis
        unfolding find_None_iff
      proof
        assume "\<exists>x. x \<in> set (visited ?cv cs) \<and> domain x = domain c \<and> ?cv x = Enriched"
        then obtain x where "x \<in> set (visited ?cv cs)" and dx: "domain x = domain c"
          by blast
        with \<open>set (visited ?cv cs) \<subseteq> set cs\<close> have "x \<in> set cs"
          by blast
        then have "domain x \<in> domain ` set cs"
          by (rule imageI)
        with dx fresh show False by simp
      qed
    qed
    show ?thesis
      unfolding step Cons.IH [OF d] go(6)
      using False none
      by (auto simp: visited_Cons save_company_def merged_company_domain)
  qed
qed

lemma company_rows_of_table:
  assumes "distinct (map domain db)" and "set vs \<subseteq> set db"
  shows "map (\<lambda>x. case find (\<lambda>c. domain c = domain x \<and> cv c = Enriched) vs of
                 Some c \<Rightarrow> m c | None \<Rightarrow> x) db =
         map (\<lambda>x. if x \<in> set vs \<and> cv x = Enriched then m x else x) db"
proof (rule map_cong [OF refl])
  fix x assume x: "x \<in> set db"
  have inj: "inj_on domain (set db)"
    using assms(1) by (simp add: distinct_map)
  show "(case find (\<lambda>c. domain c = domain x \<and> cv c = Enriched) vs of Some c \<Rightarrow> m c | None \<Rightarrow> x) =
        (if x \<in> set vs \<and> cv x = Enriched then m x else x)"
  proof (cases "find (\<lambda>c. domain c = domain x \<and> cv c = Enriched) vs")
    case None
    then have "\<not> (x \<in> set vs \<and> cv x = Enriched)"
      by (auto simp: find_None_iff)
    with None show ?thesis by auto
  next
    case (Some c)
    then have "c \<in> set vs" "domain c = domain x" "cv c = Enriched"
      by (auto simp: find_Some_iff)
    moreover from this assms(2) x inj have "c = x"
      by (auto dest: inj_onD)
    ultimately show ?thesis using Some by simp
  qed
qed

lemma overwrite_mode_iff: "overwrite_mode GET = (qd_get GET ''mode'' = Some ''all'')"
  by (simp add: overwrite_mode_def qd_get_default_def split: option.splits)

lemma merged_company_fields:
  "enrich_company (domain x) = Returned (Some d) \<Longrightarrow>
   getattr (merged_company enrich_company ow x) f =
     (if f \<in> set enrich_fields \<and> field_written ow (dict_get d f) (getattr x f) then dict_get d f
      else getattr x f)"
  by (simp add: merged_company_def merge_fields_def merge_over_fst)

lemma company_enrich_idle:
  "enable_enrichment getenv \<Longrightarrow> company_candidates (overwrite_mode GET) db = [] \<Longrightarrow>
   company_enrich getenv e sv GET db =
     (Responded \<lparr>flash = [(Info, ''No companies need enrichment.'')],
                 redirect = ''companies:company_list''\<rparr>,
      \<lparr>enriched = 0, skipped = 0, errors = 0, calls = [], rows = db\<rparr>)"
  by (simp add: company_enrich_def)

lemma lead_enrich_idle:
  "enable_enrichment getenv \<Longrightarrow> lead_candidates (overwrite_mode GET) db = [] \<Longrightarrow>
   lead_enrich getenv el GET db =
     (Responded \<lparr>flash = [(Info, ''No leads need enrichment.'')], redirect = ''leads:lead_list''\<rparr>,
      \<lparr>enriched = 0, skipped = 0, errors = 0, calls = [], rows = db\<rparr>)"
  by (simp add: lead_enrich_def)

text \<open>
  Claim C9. Overwrite mode is on exactly when the request's \<^verbatim>\<open>mode\<close> parameter is the
  string \<^verbatim>\<open>all\<close>. With the credentials present and no exception outside \<^verbatim>\<open>Exception\<close>:
  in that case every stored company and lead is a candidate, the lead collaborator is
  called with \<^verbatim>\<open>overwrite=True\<close>, and a saved company holds the collaborator's value in
  every field for which a non-empty value came back. For every other value, or none,
  only the rows missing a field are candidates, the lead collaborator is called with
  \<^verbatim>\<open>overwrite=False\<close>, and a saved company keeps its populated fields. Either way the
  only message is the run's summary (or that nothing needs enrichment): the answer of
  a request with an unrecognised mode is the answer of the request without one.
\<close>

theorem enrichment_mode_selection:
  assumes "enable_enrichment getenv"
    and "ow = (qd_get GET ''mode'' = Some ''all'')"
    and "cs = (if ow then db else filter company_missing_field db)"
    and "ls = (if ow then ldb else filter lead_missing_field ldb)"
    and "cv = company_verdict enrich_company save ow" and "lv = lead_verdict enrich_lead ow"
    and "\<forall>c \<in> set cs. cv c \<noteq> Escaped" and "\<forall>l \<in> set ls. lv l \<noteq> Escaped"
    and "distinct (map domain db)"
    and "cr = company_enrich getenv enrich_company save GET db"
    and "lr = lead_enrich getenv enrich_lead GET ldb"
  shows "overwrite_mode GET = ow
     \<and> calls (snd cr) = map domain cs
     \<and> rows (snd cr) =
         map (\<lambda>x. if x \<in> set cs \<and> cv x = Enriched then merged_company enrich_company ow x else x) db
     \<and> (\<forall>x d f. enrich_company (domain x) = Returned (Some d) \<longrightarrow>
           getattr (merged_company enrich_company ow x) f =
             (if f \<in> set enrich_fields \<and> field_written ow (dict_get d f) (getattr x f)
              then dict_get d f else getattr x f))
     \<and> fst cr = Responded
           \<lparr>flash = [if cs = [] then (Info, ''No companies need enrichment.'')
                      else (Success, summary ''Company'' ''company'' (snd cr))],
            redirect = ''companies:company_list''\<rparr>
     \<and> calls (snd lr) = map (\<lambda>l. (l, ow)) ls
     \<and> fst lr = Responded
           \<lparr>flash = [if ls = [] then (Info, ''No leads need enrichment.'')
                      else (Success, summary ''Lead'' ''lead'' (snd lr))],
            redirect = ''leads:lead_list''\<rparr>
     \<and> company_enrich getenv enrich_company save GET db =
         company_enrich getenv enrich_company save (if ow then [(''mode'', ''all'')] else []) db
     \<and> lead_enrich getenv enrich_lead GET ldb =
         lead_enrich getenv enrich_lead (if ow then [(''mode'', ''all'')] else []) ldb"
proof -
  let ?start = "\<lparr>enriched = 0, skipped = 0, errors = 0, calls = [], rows = db\<rparr>"
  let ?lstart = "\<lparr>enriched = 0, skipped = 0, errors = 0, calls = [], rows = ldb\<rparr>"
  have ow: "overwrite_mode GET = ow"
    by (simp add: overwrite_mode_iff assms(2))
  have cs: "company_candidates (overwrite_mode GET) db = cs"
    and ls: "lead_candidates (overwrite_mode GET) ldb = ls"
    by (simp_all add: ow company_candidates_def lead_candidates_def assms(3,4))
  have cs': "company_candidates ow db = cs" and ls': "lead_candidates ow ldb = ls"
    using cs ls by (simp_all add: ow)
  have sub: "set cs \<subseteq> set db"
    by (auto simp: assms(3))
  have dcs: "distinct (map domain cs)"
    using assms(9) by (simp add: assms(3) distinct_map_filter)
  have vis: "visited cv cs = cs" "breaking cv cs = []" "visited lv ls = ls" "breaking lv ls = []"
    using visited_all [OF assms(7)] visited_all [OF assms(8)] by simp_all
  note c = company_loop [of enrich_company save ow ?start cs, folded assms(5), unfolded vis]
  note l = lead_loop [of enrich_lead ow ?lstart ls, folded assms(6), unfolded vis]
  have crows: "rows (fst (for_each (company_step enrich_company save ow) ?start cs)) =
      map (\<lambda>x. if x \<in> set cs \<and> cv x = Enriched then merged_company enrich_company ow x else x) db"
    using company_loop_rows [OF dcs, of enrich_company save ow ?start]
      company_rows_of_table [OF assms(9) sub, where cv = cv and m = "merged_company enrich_company ow"]
    by (simp add: assms(5) [symmetric] vis)
  have cpart: "calls (snd cr) = map domain cs
     \<and> rows (snd cr) =
         map (\<lambda>x. if x \<in> set cs \<and> cv x = Enriched then merged_company enrich_company ow x else x) db
     \<and> fst cr = Responded
           \<lparr>flash = [if cs = [] then (Info, ''No companies need enrichment.'')
                      else (Success, summary ''Company'' ''company'' (snd cr))],
            redirect = ''companies:company_list''\<rparr>"
  proof (cases "cs = []")
    case True
    then show ?thesis
      using company_enrich_idle [OF assms(1), of GET db enrich_company save]
      by (simp add: assms(10) cs)
  next
    case False
    then show ?thesis
      using company_enrich_run [OF assms(1), of GET db enrich_company save] c crows
      by (simp add: assms(10) cs' ow Let_def)
  qed
  have lpart: "calls (snd lr) = map (\<lambda>l. (l, ow)) ls
     \<and> fst lr = Responded
           \<lparr>flash = [if ls = [] then (Info, ''No leads need enrichment.'')
                      else (Success, summary ''Lead'' ''lead'' (snd lr))],
            redirect = ''leads:lead_list''\<rparr>"
  proof (cases "ls = []")
    case True
    then show ?thesis
      using lead_enrich_idle [OF assms(1), of GET ldb enrich_lead]
      by (simp add: assms(11) ls)
  next
    case False
    then show ?thesis
      using lead_enrich_run [OF assms(1), of GET ldb enrich_lead] l
      by (simp add: assms(11) ls' ow Let_def)
  qed
  have a: "overwrite_mode [(''mode'', ''all'')] = True"
    by (simp add: overwrite_mode_def qd_get_default_def qd_get_def getlist_def)
  have same: "overwrite_mode (if ow then [(''mode'', ''all'')] else []) = overwrite_mode GET"
    by (simp add: a no_mode ow)
  have eqs: "company_enrich getenv enrich_company save GET db =
         company_enrich getenv enrich_company save (if ow then [(''mode'', ''all'')] else []) db"
    "lead_enrich getenv enrich_lead GET ldb =
         lead_enrich getenv enrich_lead (if ow then [(''mode'', ''all'')] else []) ldb"
    by (simp_all only: company_enrich_def lead_enrich_def same)
  have fld: "\<forall>x d f. enrich_company (domain x) = Returned (Some d) \<longrightarrow>
           getattr (merged_company enrich_company ow x) f =
             (if f \<in> set enrich_fields \<and> field_written ow (dict_get d f) (getattr x f)
              then dict_get d f else getattr x f)"
    by (simp add: merged_company_fields)
  from ow cpart fld lpart eqs show ?thesis
    by (intro conjI) blast+
qed

lemma mode_values:
  "qd_get [(''mode'', ''all'')] ''mode'' = Some ''all''"
  "qd_get [(''mode'', ''ALL'')] ''mode'' = Some ''ALL''"
  "qd_get [(''mode'', ''all''), (''mode'', ''everything'')] ''mode'' = Some ''everything''"
  "qd_get [] ''mode'' = None"
  by (simp_all add: qd_get_def getlist_def)

lemma acme_rows:
  "domain acme = ''acme.com''" "domain full_company = ''full.com''"
  "company_missing_field acme" "\<not> company_missing_field full_company"
  "acme \<noteq> full_company"
  by (auto simp: acme_def full_company_def company_missing_field_def getattr_def enrich_fields_def)

lemma acme_verdicts:
  "company_verdict acme_lookup saves ow acme = Enriched"
  "company_verdict acme_lookup saves ow full_company = Errored"
  by (simp_all add: company_verdict_def acme_lookup_def saves_def acme_rows acme_data_def
      field_written_def dict_get_def enrich_fields_def getattr_def acme_def)

lemma lead_rows:
  "lead_missing_field (blank_lead e)" "\<not> lead_missing_field full_lead"
  "lead_verdict flaky_lead ow (blank_lead ''a@x.io'') = Skipped"
  "lead_verdict flaky_lead ow full_lead = Skipped"
  by (simp_all add: lead_missing_field_def blank_lead_def full_lead_def lead_verdict_def flaky_lead_def
      dict_get_def)

text \<open>
  A company with a LinkedIn link and an empty industry beside a complete one, a blank
  lead beside a complete one: under \<^verbatim>\<open>mode=all\<close> all are visited and the link is
  replaced; under a repeated parameter ending in \<^verbatim>\<open>everything\<close>, and under \<^verbatim>\<open>mode=ALL\<close>,
  only the incomplete rows are visited and the link is kept.
\<close>

theorem enrichment_mode_selection_witness:
  "(let all = company_enrich keys_present acme_lookup saves [(''mode'', ''all'')] [acme, full_company];
        other = company_enrich keys_present acme_lookup saves
                  [(''mode'', ''all''), (''mode'', ''everything'')] [acme, full_company];
        lall = lead_enrich keys_present flaky_lead [(''mode'', ''all'')] [blank_lead ''a@x.io'', full_lead];
        lother = lead_enrich keys_present flaky_lead [(''mode'', ''ALL'')] [blank_lead ''a@x.io'', full_lead]
    in calls (snd all) = [''acme.com'', ''full.com'']
       \<and> map (\<lambda>x. getattr x ''linkedin'') (rows (snd all)) = [PStr ''in/other'', PStr ''x'']
       \<and> calls (snd other) = [''acme.com'']
       \<and> map (\<lambda>x. getattr x ''linkedin'') (rows (snd other)) = [PStr ''in/acme'', PStr ''x'']
       \<and> map (\<lambda>x. getattr x ''industry'') (rows (snd other)) = [PStr ''Tools'', PStr ''x'']
       \<and> other = company_enrich keys_present acme_lookup saves [] [acme, full_company]
       \<and> calls (snd lall) = [(blank_lead ''a@x.io'', True), (full_lead, True)]
       \<and> calls (snd lother) = [(blank_lead ''a@x.io'', False)]
       \<and> fst lother = Responded
            \<lparr>flash = [(Success, ''Lead enrichment completed. Enriched 0 lead(s). Skipped 1.'')],
             redirect = ''leads:lead_list''\<rparr>)"
proof -
  let ?db = "[acme, full_company]" and ?ldb = "[blank_lead ''a@x.io'', full_lead]"
  let ?A = "[(''mode'', ''all'')]" and ?O = "[(''mode'', ''all''), (''mode'', ''everything'')]"
  let ?U = "[(''mode'', ''ALL'')]"
  have d: "distinct (map domain ?db)"
    by (simp add: acme_rows)
  have ne: "\<forall>c \<in> set (if ow then ?db else filter company_missing_field ?db).
      company_verdict acme_lookup saves ow c \<noteq> Escaped" for ow
    by (simp add: acme_verdicts acme_rows)
  have nl: "\<forall>l \<in> set (if ow then ?ldb else filter lead_missing_field ?ldb).
      lead_verdict flaky_lead ow l \<noteq> Escaped" for ow
    by (simp add: lead_rows)
  have fa: "getattr (merged_company acme_lookup ow acme) f =
      (if f \<in> set enrich_fields \<and> field_written ow (dict_get acme_data f) (getattr acme f)
       then dict_get acme_data f else getattr acme f)" for ow f
    by (rule merged_company_fields) (simp add: acme_lookup_def acme_rows)
  have full: "getattr full_company ''linkedin'' = PStr ''x''" "getattr full_company ''industry'' = PStr ''x''"
    by (simp_all add: full_company_def getattr_def)
  have s: "str_nat 0 = ''0''" "str_nat (Suc 0) = ''1''"
    by (simp_all add: str_nat.simps)
  note a = enrichment_mode_selection [OF keys_present_enabled refl refl refl refl refl _ _ d refl refl,
      of ?A acme_lookup saves ?ldb flaky_lead]
  note o = enrichment_mode_selection [OF keys_present_enabled refl refl refl refl refl _ _ d refl refl,
      of ?O acme_lookup saves ?ldb flaky_lead]
  note u = enrichment_mode_selection [OF keys_present_enabled refl refl refl refl refl _ _ d refl refl,
      of ?U acme_lookup saves ?ldb flaky_lead]
  note a = a [OF ne nl] and o = o [OF ne nl] and u = u [OF ne nl]
  note ev = mode_values acme_rows acme_verdicts fa acme_vals field_written_def enrich_fields_def full
    lead_rows
  have a1: "calls (snd (company_enrich keys_present acme_lookup saves ?A ?db)) = [''acme.com'', ''full.com'']"
    using a [THEN conjunct2, THEN conjunct1] by (simp add: ev)
  have a2: "map (\<lambda>x. getattr x ''linkedin'') (rows (snd (company_enrich keys_present acme_lookup saves ?A ?db)))
          = [PStr ''in/other'', PStr ''x'']"
    using a [THEN conjunct2, THEN conjunct2, THEN conjunct1] by (simp add: ev)
  have a3: "calls (snd (lead_enrich keys_present flaky_lead ?A ?ldb)) =
      [(blank_lead ''a@x.io'', True), (full_lead, True)]"
    using a [THEN conjunct2, THEN conjunct2, THEN conjunct2, THEN conjunct2, THEN conjunct2, THEN conjunct1]
    by (simp add: ev)
  have o1: "calls (snd (company_enrich keys_present acme_lookup saves ?O ?db)) = [''acme.com'']"
    using o [THEN conjunct2, THEN conjunct1] by (simp add: ev)
  have o2: "rows (snd (company_enrich keys_present acme_lookup saves ?O ?db)) =
      [merged_company acme_lookup False acme, full_company]"
    using o [THEN conjunct2, THEN conjunct2, THEN conjunct1] by (simp add: ev)
  have o3: "company_enrich keys_present acme_lookup saves ?O ?db =
          company_enrich keys_present acme_lookup saves [] ?db"
    using o [THEN conjunct2, THEN conjunct2, THEN conjunct2, THEN conjunct2, THEN conjunct2,
        THEN conjunct2, THEN conjunct2, THEN conjunct1]
    by (simp add: ev)
  have u1: "calls (snd (lead_enrich keys_present flaky_lead ?U ?ldb)) = [(blank_lead ''a@x.io'', False)]"
    using u [THEN conjunct2, THEN conjunct2, THEN conjunct2, THEN conjunct2, THEN conjunct2, THEN conjunct1]
    by (simp add: ev)
  have u2: "fst (lead_enrich keys_present flaky_lead ?U ?ldb) = Responded
            \<lparr>flash = [(Success, summary ''Lead'' ''lead'' (snd (lead_enrich keys_present flaky_lead ?U ?ldb)))],
             redirect = ''leads:lead_list''\<rparr>"
    using u [THEN conjunct2, THEN conjunct2, THEN conjunct2, THEN conjunct2, THEN conjunct2,
        THEN conjunct2, THEN conjunct1]
    by (simp add: ev)
  have u3: "summary ''Lead'' ''lead'' (snd (lead_enrich keys_present flaky_lead ?U ?ldb)) =
      ''Lead enrichment completed. Enriched 0 lead(s). Skipped 1.''"
    by (simp add: lead_enrich_def keys_present_enabled overwrite_mode_iff mode_values lead_candidates_def
        lead_rows Let_def lead_step_def flaky_lead_def blank_lead_fields dict_get_def summary_def s)
  show ?thesis
    unfolding Let_def o3 [symmetric] a1 a2 a3 o1 o2 u1 u2 u3
    by (simp add: ev)
qed

section \<open>Pagination of the list views\<close>

lemma num_pages_pos: "1 \<le> num_pages n"
  by (simp add: num_pages_def per_page_def)

lemma page_of_items: "object_list (page_of xs n) = take 10 (drop ((n - 1) * 10) xs)"
  by (simp add: page_of_def per_page_def Let_def)

lemma page_of_number: "number (page_of xs n) = n"
  by (simp add: page_of_def Let_def)

lemma get_page_number:
  "number (get_page U xs given) =
     (case int_of_pyval U given of
        None \<Rightarrow> 1
      | Some n \<Rightarrow> if 1 \<le> n \<and> n \<le> int (num_pages (length xs)) then nat n
                 else num_pages (length xs))"
  by (simp add: get_page_def validate_number_def page_of_number split: option.splits)

lemma get_page_items:
  "object_list (get_page U xs given) = take 10 (drop ((number (get_page U xs given) - 1) * 10) xs)"
  by (simp add: get_page_def page_of_items page_of_number split: sum.splits page_error.splits)

lemma get_page_range:
  "1 \<le> number (get_page U xs given) \<and> number (get_page U xs given) \<le> num_pages (length xs)"
  using num_pages_pos [of "length xs"]
  by (auto simp: get_page_number split: option.splits)

text \<open>
  Claim C5, as the code has it. Both list views paginate with pages of ten; whatever
  the \<^verbatim>\<open>page\<close> parameter, the answer is a page between the first and the last, holding
  the ten rows of its position (fewer on the last page). When \<^verbatim>\<open>int()\<close> accepts the
  parameter, a number beyond the last page gives the last page, and so does 0 or a
  negative number; a missing or empty parameter, or one that \<^verbatim>\<open>int()\<close> rejects, gives the
  first page.
\<close>

theorem pagination_clamps:
  "number (paginate U GET xs) =
     (case int_of_pyval U (page_arg U GET) of
        None \<Rightarrow> 1
      | Some n \<Rightarrow> if 1 \<le> n \<and> n \<le> int (num_pages (length xs)) then nat n
                 else num_pages (length xs))
   \<and> 1 \<le> number (paginate U GET xs) \<and> number (paginate U GET xs) \<le> num_pages (length xs)
   \<and> object_list (paginate U GET xs) = take 10 (drop ((number (paginate U GET xs) - 1) * 10) xs)
   \<and> length (object_list (paginate U GET xs)) \<le> 10
   \<and> page_arg U GET =
       (if strip U (case qd_get GET ''page'' of None \<Rightarrow> [] | Some v \<Rightarrow> v) = [] then PInt 1
        else PStr (strip U (case qd_get GET ''page'' of None \<Rightarrow> [] | Some v \<Rightarrow> v)))"
proof -
  have items: "object_list (paginate U GET xs) = take 10 (drop ((number (paginate U GET xs) - 1) * 10) xs)"
    unfolding paginate_def by (rule get_page_items)
  have "length (take 10 (drop ((number (paginate U GET xs) - 1) * 10) xs)) \<le> 10"
    by simp
  then have short: "length (object_list (paginate U GET xs)) \<le> 10"
    by (simp only: items)
  show ?thesis
    using get_page_range [of U xs "page_arg U GET"] items short
    by (simp add: paginate_def get_page_number) (simp add: page_arg_def Let_def)
qed

lemma page_args:
  "page_arg U [(''page'', ''99'')] = PStr ''99''" "page_arg U [(''page'', ''0'')] = PStr ''0''"
  "page_arg U [(''page'', ''-3'')] = PStr ''-3''" "page_arg U [(''page'', ''abc'')] = PStr ''abc''"
  "page_arg U [(''page'', '' 2 '')] = PStr ''2''" "page_arg U [] = PInt 1"
  by (simp_all add: page_arg_def qd_get_def getlist_def strip_def ascii_def ascii_strip_def is_space_def)

lemma ints:
  "py_int U ''99'' = Some 99" "py_int U ''0'' = Some 0" "py_int U ''-3'' = Some (-3)"
  "py_int U ''abc'' = None" "py_int U ''2'' = Some 2" "py_int U ''1_0'' = Some 10"
  "py_int U ''+7'' = Some 7" "py_int U ''1__0'' = None"
  by (simp_all add: py_int_def ascii_def ascii_int_def ascii_strip_def is_space_def parse_nat_def
      digit_val_def)

lemma twelve_pages: "num_pages (length twelve) = 2"
  by (simp add: twelve_def num_pages_def per_page_def)

text \<open>Twelve rows make two pages.\<close>

theorem pagination_clamps_witness:
  "number (paginate ascii_only [(''page'', ''99'')] twelve) = 2
   \<and> object_list (paginate ascii_only [(''page'', ''99'')] twelve) = [11, 12]
   \<and> number (paginate ascii_only [(''page'', ''-3'')] twelve) = 2
   \<and> number (paginate ascii_only [(''page'', ''abc'')] twelve) = 1
   \<and> number (paginate ascii_only [(''page'', '' 2 '')] twelve) = 2
   \<and> number (paginate ascii_only [] twelve) = 1
   \<and> object_list (paginate ascii_only [] twelve) = [1, 2, 3, 4, 5, 6, 7, 8, 9, 10]"
  using pagination_clamps [of ascii_only "[(''page'', ''99'')]" twelve]
    pagination_clamps [of ascii_only "[(''page'', ''-3'')]" twelve]
    pagination_clamps [of ascii_only "[(''page'', ''abc'')]" twelve]
    pagination_clamps [of ascii_only "[(''page'', '' 2 '')]" twelve]
    pagination_clamps [of ascii_only "[]" twelve]
  by (simp add: page_args ints twelve_pages) (simp add: twelve_def)

text \<open>Page 0 and page -3 of twelve rows are the last page, not the first.\<close>

theorem page_zero_counterexample:
  "number (paginate ascii_only [(''page'', ''0'')] twelve) = 2
   \<and> object_list (paginate ascii_only [(''page'', ''0'')] twelve) = [11, 12]
   \<and> object_list (paginate ascii_only [(''page'', ''-3'')] twelve) = [11, 12]"
  by (simp add: paginate_def page_args get_page_def validate_number_def ints twelve_pages
      page_of_def per_page_def) (simp add: twelve_def)

section \<open>Bulk tag apply\<close>

lemma last_dropWhile_ne: "dropWhile P xs \<noteq> [] \<Longrightarrow> last (dropWhile P xs) = last xs"
  by (induction xs) auto

lemma ascii_strip_idem: "ascii_strip (ascii_strip s) = ascii_strip s"
proof -
  define t where "t = ascii_strip s"
  have t: "rev t = dropWhile is_space (rev (dropWhile is_space s))"
    by (simp add: t_def ascii_strip_def)
  have trail: "dropWhile is_space (rev t) = rev t"
    unfolding t by (simp add: dropWhile_idem)
  have lead: "dropWhile is_space t = t"
  proof (cases "t = []")
    case True
    then show ?thesis by simp
  next
    case False
    with t show ?thesis
      by (metis Nil_is_rev_conv dropWhile_eq_self_iff hd_dropWhile last_dropWhile_ne last_rev)
  qed
  show ?thesis
    unfolding t_def [symmetric]
    by (simp add: ascii_strip_def [of t] lead trail)
qed

lemma ascii_ascii_strip: "ascii s \<Longrightarrow> ascii (ascii_strip s)"
proof -
  have "set (ascii_strip s) \<subseteq> set s"
    by (auto simp: ascii_strip_def dest!: set_dropWhileD)
  then show "ascii s \<Longrightarrow> ascii (ascii_strip s)"
    by (auto simp: ascii_def list_all_iff)
qed

text \<open>On an ASCII string the tag name is the string trimmed once and lowered.\<close>

lemma ascii_tag_name:
  "ascii raw \<Longrightarrow> lower U (strip U (strip U raw)) = ascii_lower (ascii_strip raw)"
  by (simp add: strip_def lower_def ascii_ascii_strip ascii_strip_idem)

lemma count_list_distinct: "distinct xs \<Longrightarrow> x \<in> set xs \<Longrightarrow> count_list xs x = 1"
  by (induction xs) (auto simp: count_list_0_iff)

text \<open>\<^verbatim>\<open>get_or_create\<close> gives a tag of the asked name, and the same one when asked again.\<close>

lemma get_or_create_name: "tag_name (fst (get_or_create n ts)) = n"
  by (auto simp: get_or_create_def Let_def split: option.splits dest: find_Some_iff [THEN iffD1])

lemma get_or_create_member: "fst (get_or_create n ts) \<in> set (snd (get_or_create n ts))"
  by (auto simp: get_or_create_def Let_def find_Some_iff split: option.splits)

lemma get_or_create_tags:
  "snd (get_or_create n ts) =
     (if n \<in> tag_name ` set ts then ts else ts @ [fst (get_or_create n ts)])"
  by (auto simp: get_or_create_def Let_def find_None_iff find_Some_iff split: option.splits)

lemma find_append_new:
  "find P ts = None \<Longrightarrow> P t \<Longrightarrow> find P (ts @ [t]) = Some t"
  by (induction ts) (auto split: if_splits)

lemma get_or_create_again:
  "get_or_create n (snd (get_or_create n ts)) = get_or_create n ts"
proof (cases "find (\<lambda>t. tag_name t = n) ts")
  case None
  then show ?thesis
    by (simp add: get_or_create_def Let_def find_append_new)
next
  case (Some t)
  then show ?thesis
    by (simp add: get_or_create_def)
qed

text \<open>The loop counts every lead it visits and adds only pairs that are missing.\<close>

lemma apply_loop_count: "snd (foldl (apply_step t) st ls) = snd st + length ls"
  by (induction ls arbitrary: st) (simp_all add: apply_step_def)

lemma apply_loop_set:
  "set (fst (foldl (apply_step t) st ls)) = set (fst st) \<union> (\<lambda>l. (email l, tag_pk t)) ` set ls"
  by (induction ls arbitrary: st) (auto simp: apply_step_def tags_add_def)

lemma apply_loop_distinct:
  "distinct (fst st) \<Longrightarrow> distinct (fst (foldl (apply_step t) st ls))"
  by (induction ls arbitrary: st) (auto simp: apply_step_def tags_add_def)

lemma apply_loop_present:
  "(\<lambda>l. (email l, tag_pk t)) ` set ls \<subseteq> set (fst st) \<Longrightarrow>
     fst (foldl (apply_step t) st ls) = fst st"
  by (induction ls arbitrary: st) (auto simp: apply_step_def tags_add_def)

lemma apply_loop_again:
  "fst (foldl (apply_step t) (fst (foldl (apply_step t) st ls), k) ls) = fst (foldl (apply_step t) st ls)"
  using apply_loop_present [of t ls "(fst (foldl (apply_step t) st ls), k)"]
  by (simp add: apply_loop_set)

lemma leads_in_set: "set (leads_in sel ls) = {l \<in> set ls. email l \<in> set sel}"
  by (auto simp: leads_in_def by_email_def set_order_by)

lemma leads_in_length: "length (leads_in sel ls) = length (filter (\<lambda>l. email l \<in> set sel) ls)"
  unfolding leads_in_def by_email_def by (rule mset_eq_length) (rule mset_order_by)

lemma leads_in_count:
  assumes "distinct (map email ls)"
  shows "length (leads_in sel ls) = card (set sel \<inter> email ` set ls)"
proof -
  let ?f = "filter (\<lambda>l. email l \<in> set sel) ls"
  have "distinct (map email ?f)"
    using assms by (simp add: distinct_map_filter)
  then have "card (set (map email ?f)) = length (map email ?f)"
    by (rule distinct_card)
  moreover have "set (map email ?f) = set sel \<inter> email ` set ls"
    by auto
  ultimately show ?thesis by (simp add: leads_in_length)
qed

lemma bulk_apply_tag_unfold:
  assumes "getlist POST ''selected_leads'' \<noteq> []"
    and "strip U (case qd_get POST ''tag_name'' of None \<Rightarrow> [] | Some v \<Rightarrow> v) \<noteq> []"
  shows "bulk_apply_tag U ''POST'' POST db =
     (let raw = (case qd_get POST ''tag_name'' of None \<Rightarrow> [] | Some v \<Rightarrow> v);
          n = lower U (strip U (strip U raw));
          gc = get_or_create n (tags db);
          st = foldl (apply_step (fst gc)) (lead_tags db, 0)
                 (leads_in (getlist POST ''selected_leads'') (leads db))
      in (\<lparr>flash = [(Success, applied_message n (length (leads_in (getlist POST ''selected_leads'') (leads db))))],
           redirect = ''leads:lead_list''\<rparr>,
          db\<lparr>tags := snd gc, lead_tags := fst st\<rparr>))"
  using assms
  by (simp add: bulk_apply_tag_def Let_def get_or_create_name apply_loop_count)

lemma blank_lead_email: "email (blank_lead e) = e"
  by (simp add: blank_lead_def)

lemma tag_names:
  "strip ascii_only ''  VIP  '' = ''VIP''" "strip ascii_only ''Cold'' = ''Cold''"
  "strip ascii_only ''VIP'' = ''VIP''"
  "lower ascii_only ''VIP'' = ''vip''" "lower ascii_only ''Cold'' = ''cold''"
  "ascii ''  VIP  ''" "ascii_lower (ascii_strip ''  VIP  '') = ''vip''"
  by (simp_all add: strip_def lower_def ascii_def ascii_strip_def ascii_lower_def is_space_def
      lower_char_def)

lemma post_params:
  "getlist vip_post ''selected_leads'' = [''a@x.io'', ''ghost@x.io'', ''c@x.io'']"
  "qd_get vip_post ''tag_name'' = Some ''  VIP  ''"
  "getlist ghost_post ''selected_leads'' = [''ghost@x.io'', ''nobody@x.io'']"
  "qd_get ghost_post ''tag_name'' = Some ''Cold''"
  by (simp_all add: vip_post_def ghost_post_def getlist_def qd_get_def)

lemma vip_tag: "get_or_create ''vip'' [] = (\<lparr>tag_pk = 1, tag_name = ''vip''\<rparr>, [\<lparr>tag_pk = 1, tag_name = ''vip''\<rparr>])"
  "get_or_create ''cold'' [] = (\<lparr>tag_pk = 1, tag_name = ''cold''\<rparr>, [\<lparr>tag_pk = 1, tag_name = ''cold''\<rparr>])"
  by (simp_all add: get_or_create_def Let_def)

lemma vip_selection:
  "leads_in [''a@x.io'', ''ghost@x.io'', ''c@x.io''] (leads three_leads) =
     [blank_lead ''a@x.io'', blank_lead ''c@x.io'']"
  by (simp add: leads_in_def by_email_def order_by_def three_leads_def blank_lead_email col_cmp_def
      email_col_def)

lemma vip_run:
  "bulk_apply_tag ascii_only ''POST'' vip_post three_leads =
     (\<lparr>flash = [(Success, ''Applied tag '' @ [CHR 0x22] @ ''vip'' @ [CHR 0x22] @ '' to 2 lead(s).'')],
       redirect = ''leads:lead_list''\<rparr>,
      three_leads\<lparr>tags := [\<lparr>tag_pk = 1, tag_name = ''vip''\<rparr>],
                   lead_tags := [(''a@x.io'', 1), (''c@x.io'', 1)]\<rparr>)"
  unfolding bulk_apply_tag_def post_params
  by (simp add: tag_names Let_def vip_selection)
    (simp add: three_leads_def vip_tag blank_lead_email apply_step_def tags_add_def applied_message_def
      str_nat.simps)

text \<open>
  Claim C6. For a POST with a non-empty selection and a tag name that \<^verbatim>\<open>strip()\<close> does not
  empty, \<^verbatim>\<open>bulk_apply_tag\<close> takes the name trimmed and lowercased (on an ASCII name: the
  name without its surrounding blanks, its capital letters lowered), reuses the tag of
  that name or appends a new one, relates it to every lead whose key is selected,
  leaves the leads themselves alone and reports the number of leads it visited. Doing
  the same request again gives the same answer and the same tables, and with a
  duplicate-free relation at the start each selected lead is related to the tag exactly
  once.
\<close>

theorem bulk_apply_tag_attaches:
  assumes "selected = getlist POST ''selected_leads''" and "selected \<noteq> []"
    and "raw = (case qd_get POST ''tag_name'' of None \<Rightarrow> [] | Some v \<Rightarrow> v)" and "strip U raw \<noteq> []"
    and "r = bulk_apply_tag U ''POST'' POST db"
    and "n = lower U (strip U (strip U raw))"
    and "t = fst (get_or_create n (tags db))"
  shows "tag_name t = n \<and> (ascii raw \<longrightarrow> n = ascii_lower (ascii_strip raw))
     \<and> t \<in> set (tags (snd r))
     \<and> tags (snd r) = (if n \<in> tag_name ` set (tags db) then tags db else tags db @ [t])
     \<and> (\<forall>l \<in> set (leads db). email l \<in> set selected \<longrightarrow> (email l, tag_pk t) \<in> set (lead_tags (snd r)))
     \<and> leads (snd r) = leads db
     \<and> fst r = \<lparr>flash = [(Success, applied_message n (length (leads_in selected (leads db))))],
                redirect = ''leads:lead_list''\<rparr>
     \<and> bulk_apply_tag U ''POST'' POST (snd r) = r
     \<and> (distinct (lead_tags db) \<longrightarrow>
          (\<forall>l \<in> set (leads db). email l \<in> set selected \<longrightarrow>
             count_list (lead_tags (snd (bulk_apply_tag U ''POST'' POST (snd r)))) (email l, tag_pk t) = 1))"
proof -
  let ?sel = "leads_in selected (leads db)"
  let ?st = "foldl (apply_step t) (lead_tags db, 0) ?sel"
  have r: "r = (\<lparr>flash = [(Success, applied_message n (length ?sel))], redirect = ''leads:lead_list''\<rparr>,
               db\<lparr>tags := snd (get_or_create n (tags db)), lead_tags := fst ?st\<rparr>)"
    using assms(2,4) unfolding assms(1,3,5,6,7)
    by (simp add: bulk_apply_tag_unfold Let_def)
  have again: "bulk_apply_tag U ''POST'' POST (snd r) = r"
    using assms(2,4) unfolding assms(1,3)
    by (simp add: bulk_apply_tag_unfold [of POST U "snd r"] Let_def)
      (simp add: r assms(1,3,6,7) get_or_create_again apply_loop_again)
  have attached: "\<forall>l \<in> set (leads db). email l \<in> set selected \<longrightarrow> (email l, tag_pk t) \<in> set (lead_tags (snd r))"
    by (auto simp: r apply_loop_set leads_in_set)
  have one: "distinct (lead_tags db) \<longrightarrow>
          (\<forall>l \<in> set (leads db). email l \<in> set selected \<longrightarrow>
             count_list (lead_tags (snd (bulk_apply_tag U ''POST'' POST (snd r)))) (email l, tag_pk t) = 1)"
  proof
    assume d: "distinct (lead_tags db)"
    have "distinct (lead_tags (snd r))"
      using d by (simp add: r apply_loop_distinct)
    with attached show "\<forall>l \<in> set (leads db). email l \<in> set selected \<longrightarrow>
             count_list (lead_tags (snd (bulk_apply_tag U ''POST'' POST (snd r)))) (email l, tag_pk t) = 1"
      unfolding again by (simp add: count_list_distinct)
  qed
  have name: "tag_name t = n"
    by (simp add: assms(7) get_or_create_name)
  have plain: "ascii raw \<longrightarrow> n = ascii_lower (ascii_strip raw)"
    by (simp add: assms(6) ascii_tag_name)
  have mem: "t \<in> set (tags (snd r))"
    by (simp add: r assms(7) get_or_create_member)
  have tgs: "tags (snd r) = (if n \<in> tag_name ` set (tags db) then tags db else tags db @ [t])"
    unfolding assms(7) using get_or_create_tags [of n "tags db"] by (simp add: r)
  have rest: "leads (snd r) = leads db"
    "fst r = \<lparr>flash = [(Success, applied_message n (length ?sel))], redirect = ''leads:lead_list''\<rparr>"
    by (simp_all add: r)
  from name plain mem tgs attached rest again one show ?thesis by blast
qed

text \<open>The tag name \<^verbatim>\<open>"  VIP  "\<close> applied to two existing leads and one unknown key.\<close>

theorem bulk_apply_tag_attaches_witness:
  "tags (snd (bulk_apply_tag ascii_only ''POST'' vip_post three_leads)) = [\<lparr>tag_pk = 1, tag_name = ''vip''\<rparr>]
   \<and> lead_tags (snd (bulk_apply_tag ascii_only ''POST'' vip_post three_leads)) =
       [(''a@x.io'', 1), (''c@x.io'', 1)]
   \<and> flash (fst (bulk_apply_tag ascii_only ''POST'' vip_post three_leads)) =
       [(Success, ''Applied tag '' @ [CHR 0x22] @ ''vip'' @ [CHR 0x22] @ '' to 2 lead(s).'')]
   \<and> lower ascii_only (strip ascii_only (strip ascii_only ''  VIP  '')) = ''vip''
   \<and> bulk_apply_tag ascii_only ''POST'' vip_post
        (snd (bulk_apply_tag ascii_only ''POST'' vip_post three_leads)) =
       bulk_apply_tag ascii_only ''POST'' vip_post three_leads
   \<and> count_list (lead_tags (snd (bulk_apply_tag ascii_only ''POST'' vip_post
         (snd (bulk_apply_tag ascii_only ''POST'' vip_post three_leads))))) (''a@x.io'', 1) = 1"
proof -
  let ?raw = "case qd_get vip_post ''tag_name'' of None \<Rightarrow> [] | Some v \<Rightarrow> v"
  have sel: "getlist vip_post ''selected_leads'' \<noteq> []"
    by (simp add: post_params)
  have nm: "strip ascii_only ?raw \<noteq> []"
    by (simp add: post_params tag_names)
  have raw: "?raw = ''  VIP  ''" "ascii ?raw"
    by (simp_all add: post_params tag_names)
  have d: "distinct (lead_tags three_leads)"
    by (simp add: three_leads_def)
  have a: "blank_lead ''a@x.io'' \<in> set (leads three_leads)"
    "email (blank_lead ''a@x.io'') \<in> set (getlist vip_post ''selected_leads'')"
    by (simp_all add: three_leads_def post_params blank_lead_email)
  have t: "fst (get_or_create ''vip'' (tags three_leads)) = \<lparr>tag_pk = 1, tag_name = ''vip''\<rparr>"
    by (simp add: three_leads_def vip_tag)
  note inst = bulk_apply_tag_attaches [OF refl sel refl nm refl refl refl, of three_leads]
  from inst raw(2) have n: "lower ascii_only (strip ascii_only (strip ascii_only ?raw)) = ''vip''"
    unfolding raw(1) by (simp add: tag_names)
  from inst d a
  have "bulk_apply_tag ascii_only ''POST'' vip_post (snd (bulk_apply_tag ascii_only ''POST'' vip_post three_leads)) =
       bulk_apply_tag ascii_only ''POST'' vip_post three_leads
     \<and> count_list (lead_tags (snd (bulk_apply_tag ascii_only ''POST'' vip_post
         (snd (bulk_apply_tag ascii_only ''POST'' vip_post three_leads))))) (''a@x.io'', 1) = 1"
    unfolding n t by (auto simp: blank_lead_email)
  with n show ?thesis
    unfolding raw(1) by (simp add: vip_run)
qed

text \<open>
  Claim C10. With leads keyed uniquely, the count \<^verbatim>\<open>bulk_apply_tag\<close> reports is the number
  of selected keys that belong to a lead, not the number submitted. A selected key
  with no lead gets no relation row, and when no key matches, the answer is still the
  success message, with count 0, and the relation is unchanged.
\<close>

theorem bulk_apply_tag_count:
  assumes "selected = getlist POST ''selected_leads''" and "selected \<noteq> []"
    and "raw = (case qd_get POST ''tag_name'' of None \<Rightarrow> [] | Some v \<Rightarrow> v)" and "strip U raw \<noteq> []"
    and "r = bulk_apply_tag U ''POST'' POST db"
    and "distinct (map email (leads db))"
  shows "flash (fst r) =
       [(Success, applied_message (lower U (strip U (strip U raw)))
                    (card (set selected \<inter> email ` set (leads db))))]
     \<and> (set selected \<inter> email ` set (leads db) = {} \<longrightarrow>
          flash (fst r) = [(Success, applied_message (lower U (strip U (strip U raw))) 0)]
          \<and> lead_tags (snd r) = lead_tags db)
     \<and> fst ` (set (lead_tags (snd r)) - set (lead_tags db)) \<subseteq> set selected \<inter> email ` set (leads db)
     \<and> leads (snd r) = leads db"
proof -
  let ?n = "lower U (strip U (strip U raw))"
  let ?sel = "leads_in selected (leads db)"
  let ?t = "fst (get_or_create ?n (tags db))"
  let ?st = "foldl (apply_step ?t) (lead_tags db, 0) ?sel"
  have r: "r = (\<lparr>flash = [(Success, applied_message ?n (length ?sel))], redirect = ''leads:lead_list''\<rparr>,
               db\<lparr>tags := snd (get_or_create ?n (tags db)), lead_tags := fst ?st\<rparr>)"
    using assms(2,4) unfolding assms(1,3,5)
    by (simp add: bulk_apply_tag_unfold Let_def)
  have n: "length ?sel = card (set selected \<inter> email ` set (leads db))"
    using assms(6) by (rule leads_in_count)
  have none: "lead_tags (snd r) = lead_tags db" if "set selected \<inter> email ` set (leads db) = {}"
  proof -
    from that n have "?sel = []" by simp
    then show ?thesis by (simp add: r)
  qed
  have new: "fst ` (set (lead_tags (snd r)) - set (lead_tags db)) \<subseteq> set selected \<inter> email ` set (leads db)"
    by (auto simp: r apply_loop_set leads_in_set)
  show ?thesis
    using none new by (simp add: r n)
qed

text \<open>Two unknown keys, and the request of the previous example.\<close>

lemma ghost_run_params:
  "set (getlist ghost_post ''selected_leads'') \<inter> email ` set (leads three_leads) = {}"
  by (simp add: post_params three_leads_def blank_lead_email)

theorem bulk_apply_tag_count_witness:
  "flash (fst (bulk_apply_tag ascii_only ''POST'' ghost_post three_leads)) =
      [(Success, ''Applied tag '' @ [CHR 0x22] @ ''cold'' @ [CHR 0x22] @ '' to 0 lead(s).'')]
   \<and> lead_tags (snd (bulk_apply_tag ascii_only ''POST'' ghost_post three_leads)) = []
   \<and> flash (fst (bulk_apply_tag ascii_only ''POST'' vip_post three_leads)) =
      [(Success, ''Applied tag '' @ [CHR 0x22] @ ''vip'' @ [CHR 0x22] @ '' to 2 lead(s).'')]"
proof -
  have sel: "getlist ghost_post ''selected_leads'' \<noteq> []" "getlist vip_post ''selected_leads'' \<noteq> []"
    by (simp_all add: post_params)
  have nm: "strip ascii_only (case qd_get ghost_post ''tag_name'' of None \<Rightarrow> [] | Some v \<Rightarrow> v) \<noteq> []"
    "strip ascii_only (case qd_get vip_post ''tag_name'' of None \<Rightarrow> [] | Some v \<Rightarrow> v) \<noteq> []"
    by (simp_all add: post_params tag_names)
  have d: "distinct (map email (leads three_leads))"
    by (simp add: three_leads_def blank_lead_email)
  have two: "card (set (getlist vip_post ''selected_leads'') \<inter> email ` set (leads three_leads)) = 2"
    by (simp add: post_params three_leads_def blank_lead_email)
  have g: "flash (fst (bulk_apply_tag ascii_only ''POST'' ghost_post three_leads)) =
        [(Success, applied_message ''cold'' 0)]
      \<and> lead_tags (snd (bulk_apply_tag ascii_only ''POST'' ghost_post three_leads)) = lead_tags three_leads"
    using bulk_apply_tag_count [OF refl sel(1) refl nm(1) refl d] ghost_run_params
    by (simp add: post_params tag_names)
  have v: "flash (fst (bulk_apply_tag ascii_only ''POST'' vip_post three_leads)) =
        [(Success, applied_message ''vip'' 2)]"
    using bulk_apply_tag_count [OF refl sel(2) refl nm(2) refl d]
    by (simp only: two) (simp add: post_params tag_names)
  have m: "applied_message ''cold'' 0 = ''Applied tag '' @ [CHR 0x22] @ ''cold'' @ [CHR 0x22] @ '' to 0 lead(s).''"
    "applied_message ''vip'' 2 = ''Applied tag '' @ [CHR 0x22] @ ''vip'' @ [CHR 0x22] @ '' to 2 lead(s).''"
    by (simp_all add: applied_message_def str_nat.simps)
  have e: "lead_tags three_leads = []"
    by (simp add: three_leads_def)
  from g v show ?thesis
    unfolding m e by simp
qed

section \<open>Mailing-list sync\<close>















section \<open>The direction of a sort\<close>

lemma getlist_without_dir:
  assumes "filter (\<lambda>kv. fst kv \<noteq> ''dir'') GET = filter (\<lambda>kv. fst kv \<noteq> ''dir'') GET'"
    and "k \<noteq> ''dir''"
  shows "getlist GET k = getlist GET' k"
proof -
  have "filter (\<lambda>kv. fst kv = k) q = filter (\<lambda>kv. fst kv = k) (filter (\<lambda>kv. fst kv \<noteq> ''dir'') q)"
    for q :: querydict
    using assms(2) by (auto intro: filter_cong)
  then show ?thesis
    unfolding getlist_def using assms(1) by metis
qed

lemma param_without_dir:
  assumes "filter (\<lambda>kv. fst kv \<noteq> ''dir'') GET = filter (\<lambda>kv. fst kv \<noteq> ''dir'') GET'"
    and "k \<noteq> ''dir''"
  shows "qd_get GET k = qd_get GET' k"
  by (simp add: qd_get_def getlist_without_dir [OF assms])

lemma company_order_fixed:
  "company_order ls (company_sort_key U GET) (company_sort_dir U GET) =
     company_fixed_order ls (company_sort_key U GET)"
  by (simp add: company_order_def company_fixed_order_def company_sort_dir_def company_sort_key_def
      company_default_dir_for_def prefix_of_def Let_def)

lemma lead_order_fixed:
  "lead_order cs (lead_sort_key U GET) (lead_sort_dir U GET) = lead_fixed_order cs (lead_sort_key U GET)"
  by (simp add: lead_order_def lead_fixed_order_def lead_sort_dir_def lead_sort_key_def
      lead_default_dir_for_def prefix_of_def Let_def)

text \<open>
  Claim C3. Two requests that differ only in their \<^verbatim>\<open>dir\<close> parameters get the same
  ordered rows and the same page from \<^verbatim>\<open>company_list\<close> and from \<^verbatim>\<open>lead_list\<close>: the rows
  are ordered by the criteria of the sort key with the key's fixed direction (size and
  leads, score and stage descending, every other key ascending). The \<^verbatim>\<open>dir\<close> value only
  reaches the template, and there only when no valid sort key is given; with a valid
  key the template is handed the key's fixed direction.
\<close>

theorem sort_direction_fixed:
  assumes "filter (\<lambda>kv. fst kv \<noteq> ''dir'') GET = filter (\<lambda>kv. fst kv \<noteq> ''dir'') GET'"
  shows "queryset (company_list U GET cs ls) = queryset (company_list U GET' cs ls)
     \<and> page_obj (company_list U GET cs ls) = page_obj (company_list U GET' cs ls)
     \<and> queryset (lead_list U GET ls cs) = queryset (lead_list U GET' ls cs)
     \<and> page_obj (lead_list U GET ls cs) = page_obj (lead_list U GET' ls cs)
     \<and> queryset (company_list U GET cs ls) = order_by (company_fixed_order ls (company_sort_key U GET)) (by_domain cs)
     \<and> queryset (lead_list U GET ls cs) = order_by (lead_fixed_order cs (lead_sort_key U GET)) ls
     \<and> sort_dir (company_list U GET cs ls) =
         (if company_sort_key U GET = [] then param U GET ''dir''
          else if company_sort_key U GET \<in> {''size'', ''leads''} then ''desc'' else ''asc'')
     \<and> sort_dir (lead_list U GET ls cs) =
         (if lead_sort_key U GET = [] then param U GET ''dir''
          else if lead_sort_key U GET \<in> {''score'', ''stage''} then ''desc'' else ''asc'')"
proof -
  have sort: "qd_get GET ''sort'' = qd_get GET' ''sort''"
    and page: "qd_get GET ''page'' = qd_get GET' ''page''"
    by (simp_all add: param_without_dir [OF assms])
  have ckey: "company_sort_key U GET = company_sort_key U GET'"
    and lkey: "lead_sort_key U GET = lead_sort_key U GET'"
    by (simp_all add: company_sort_key_def lead_sort_key_def param_def sort)
  have pg: "paginate U GET xs = paginate U GET' xs" for xs :: "'a list"
    by (simp add: paginate_def page_arg_def page)
  have cq: "queryset (company_list U G cs ls) = order_by (company_fixed_order ls (company_sort_key U G)) (by_domain cs)"
    and cp: "page_obj (company_list U G cs ls) =
           paginate U G (order_by (company_fixed_order ls (company_sort_key U G)) (by_domain cs))" for G
    by (simp_all add: company_list_def Let_def company_order_fixed)
  have lq: "queryset (lead_list U G ls cs) = order_by (lead_fixed_order cs (lead_sort_key U G)) ls"
    and lp: "page_obj (lead_list U G ls cs) =
           paginate U G (order_by (lead_fixed_order cs (lead_sort_key U G)) ls)" for G
    by (simp_all add: lead_list_def Let_def lead_order_fixed)
  have cdir: "sort_dir (company_list U GET cs ls) =
         (if company_sort_key U GET = [] then param U GET ''dir''
          else if company_sort_key U GET \<in> {''size'', ''leads''} then ''desc'' else ''asc'')"
    by (simp add: company_list_def Let_def company_sort_dir_def company_default_dir_for_def)
  have ldir: "sort_dir (lead_list U GET ls cs) =
         (if lead_sort_key U GET = [] then param U GET ''dir''
          else if lead_sort_key U GET \<in> {''score'', ''stage''} then ''desc'' else ''asc'')"
    by (simp add: lead_list_def Let_def lead_sort_dir_def lead_default_dir_for_def)
  show ?thesis
    unfolding cq cp lq lp cdir ldir ckey lkey pg by simp
qed

lemma sized_fields: "domain (sized d n) = d" "getattr (sized d n) ''company_size'' = PInt n"
  by (simp_all add: sized_def getattr_def)

lemma scored_fields: "email (scored e n) = e" "lattrs (scored e n) ''lead_score'' = PInt n"
  by (simp_all add: scored_def)

lemma size_keys:
  "company_sort_key U [(''sort'', ''size''), (''dir'', ''asc'')] = ''size''"
  "lead_sort_key U [(''sort'', ''score''), (''dir'', ''asc'')] = ''score''"
  "company_sort_key U [(''sort'', ''Size ''), (''dir'', ''desc'')] = ''size''"
  by (simp_all add: company_sort_key_def lead_sort_key_def param_def qd_get_def getlist_def strip_def
      lower_def ascii_def ascii_strip_def ascii_lower_def is_space_def lower_char_def)

text \<open>Sorting by size and by score with \<^verbatim>\<open>dir=asc\<close> and with \<^verbatim>\<open>dir=desc\<close>: largest first both times.\<close>

theorem sort_direction_fixed_witness:
  "queryset (company_list ascii_only [(''sort'', ''size''), (''dir'', ''asc'')] [sized ''a.com'' 5, sized ''b.com'' 90] []) =
     [sized ''b.com'' 90, sized ''a.com'' 5]
   \<and> queryset (company_list ascii_only [(''sort'', ''size''), (''dir'', ''desc'')] [sized ''a.com'' 5, sized ''b.com'' 90] []) =
     [sized ''b.com'' 90, sized ''a.com'' 5]
   \<and> sort_dir (company_list ascii_only [(''sort'', ''size''), (''dir'', ''asc'')] [sized ''a.com'' 5, sized ''b.com'' 90] []) = ''desc''
   \<and> queryset (lead_list ascii_only [(''sort'', ''score''), (''dir'', ''asc'')] [scored ''a@x.io'' 5, scored ''b@x.io'' 90] []) =
     [scored ''b@x.io'' 90, scored ''a@x.io'' 5]
   \<and> queryset (lead_list ascii_only [(''sort'', ''score''), (''dir'', ''desc'')] [scored ''a@x.io'' 5, scored ''b@x.io'' 90] []) =
     [scored ''b@x.io'' 90, scored ''a@x.io'' 5]"
proof -
  have same: "filter (\<lambda>kv. fst kv \<noteq> ''dir'') [(''sort'', ''size''), (''dir'', ''asc'')] =
      filter (\<lambda>kv. fst kv \<noteq> ''dir'') [(''sort'', ''size''), (''dir'', ''desc'')]"
    "filter (\<lambda>kv. fst kv \<noteq> ''dir'') [(''sort'', ''score''), (''dir'', ''asc'')] =
      filter (\<lambda>kv. fst kv \<noteq> ''dir'') [(''sort'', ''score''), (''dir'', ''desc'')]"
    by simp_all
  have c: "order_by (company_fixed_order [] ''size'') (by_domain [sized ''a.com'' 5, sized ''b.com'' 90]) =
      [sized ''b.com'' 90, sized ''a.com'' 5]"
    by (simp add: by_domain_def order_by_def company_fixed_order_def col_cmp_def size_sort_def
        domain_col_def sized_fields Coalesce_def)
  have l: "order_by (lead_fixed_order [] ''score'') [scored ''a@x.io'' 5, scored ''b@x.io'' 90] =
      [scored ''b@x.io'' 90, scored ''a@x.io'' 5]"
    by (simp add: order_by_def lead_fixed_order_def col_cmp_def lead_score_col_def scored_fields)
  let ?G = "[(''sort'', ''size''), (''dir'', ''asc'')]" and ?G' = "[(''sort'', ''size''), (''dir'', ''desc'')]"
  let ?H = "[(''sort'', ''score''), (''dir'', ''asc'')]" and ?H' = "[(''sort'', ''score''), (''dir'', ''desc'')]"
  let ?cs = "[sized ''a.com'' 5, sized ''b.com'' 90]" and ?ls = "[scored ''a@x.io'' 5, scored ''b@x.io'' 90]"
  note t = sort_direction_fixed [OF same(1), of ascii_only ?cs "[]"]
  note u = sort_direction_fixed [OF same(2), of ascii_only "[]" ?ls]
  from t have c1: "queryset (company_list ascii_only ?G ?cs []) = order_by (company_fixed_order [] (company_sort_key ascii_only ?G)) (by_domain ?cs)"
    by blast
  from t have c2: "queryset (company_list ascii_only ?G ?cs []) = queryset (company_list ascii_only ?G' ?cs [])"
    by blast
  from t have c3: "sort_dir (company_list ascii_only ?G ?cs []) =
         (if company_sort_key ascii_only ?G = [] then param ascii_only ?G ''dir''
          else if company_sort_key ascii_only ?G \<in> {''size'', ''leads''} then ''desc'' else ''asc'')"
    by blast
  from u have l1: "queryset (lead_list ascii_only ?H ?ls []) = order_by (lead_fixed_order [] (lead_sort_key ascii_only ?H)) ?ls"
    by blast
  from u have l2: "queryset (lead_list ascii_only ?H ?ls []) = queryset (lead_list ascii_only ?H' ?ls [])"
    by blast
  show ?thesis
    unfolding c2 [symmetric] l2 [symmetric] c1 l1 c3 size_keys c l by simp
qed

section \<open>The order of a listing\<close>

lemma company_queryset:
  "queryset (company_list U G cs xs) =
     order_by (company_fixed_order xs (company_sort_key U G)) (by_domain cs)"
  by (simp add: company_list_def Let_def company_order_fixed)

lemma lead_queryset:
  "queryset (lead_list U H ls ys) = order_by (lead_fixed_order ys (lead_sort_key U H)) ls"
  by (simp add: lead_list_def Let_def lead_order_fixed)

lemma domain_col_inj: "distinct (map domain cs) \<Longrightarrow> inj_on domain_col (set cs)"
  by (auto simp: distinct_map domain_col_def inj_on_def)

lemma email_col_inj: "distinct (map email ls) \<Longrightarrow> inj_on email_col (set ls)"
  by (auto simp: distinct_map email_col_def inj_on_def)

lemma domain_sort_inj: "inj_on (ascii_lower \<circ> domain) (set cs) \<Longrightarrow> inj_on domain_sort (set cs)"
  by (auto simp: domain_sort_def inj_on_def)

lemma email_sort_inj: "inj_on (ascii_lower \<circ> email) (set ls) \<Longrightarrow> inj_on email_sort (set ls)"
  by (auto simp: email_sort_def inj_on_def)

lemma company_no_ties:
  assumes "distinct (map domain cs)"
    and "k \<in> {''name'', ''industry'', ''size'', ''leads''} \<or> k = ''domain'' \<and> inj_on (ascii_lower \<circ> domain) (set cs)"
  shows "\<forall>a \<in> set cs. \<forall>b \<in> set cs. row_cmp (company_fixed_order xs k) a b = EQUAL \<longrightarrow> a = b"
proof (cases "k = ''domain''")
  case True
  with assms(2) have "inj_on (snd (Asc, domain_sort)) (set cs)"
    by (simp add: domain_sort_inj)
  moreover have "(Asc, domain_sort) \<in> set (company_fixed_order xs k)"
    using True by (simp add: company_fixed_order_def)
  ultimately show ?thesis by (rule key_breaks_ties [rotated])
next
  case False
  have "inj_on (snd (Asc, domain_col)) (set cs)"
    using assms(1) by (simp add: domain_col_inj)
  moreover have "(Asc, domain_col) \<in> set (company_fixed_order xs k)"
    using False assms(2) by (auto simp: company_fixed_order_def)
  ultimately show ?thesis by (rule key_breaks_ties [rotated])
qed

lemma lead_no_ties:
  assumes "distinct (map email ls)"
    and "k \<in> {''name'', ''job_title'', ''company'', ''score'', ''stage''}
       \<or> k = ''email'' \<and> inj_on (ascii_lower \<circ> email) (set ls)"
  shows "\<forall>a \<in> set ls. \<forall>b \<in> set ls. row_cmp (lead_fixed_order ys k) a b = EQUAL \<longrightarrow> a = b"
proof (cases "k = ''email''")
  case True
  with assms(2) have "inj_on (snd (Asc, email_sort)) (set ls)"
    by (simp add: email_sort_inj)
  moreover have "(Asc, email_sort) \<in> set (lead_fixed_order ys k)"
    using True by (simp add: lead_fixed_order_def)
  ultimately show ?thesis by (rule key_breaks_ties [rotated])
next
  case False
  have "inj_on (snd (Asc, email_col)) (set ls)"
    using assms(1) by (simp add: email_col_inj)
  moreover have "(Asc, email_col) \<in> set (lead_fixed_order ys k)"
    using False assms(2) by (auto simp: lead_fixed_order_def)
  ultimately show ?thesis by (rule key_breaks_ties [rotated])
qed

text \<open>
  Claim C4, as the code has it. With unique keys, for each sort key of \<^verbatim>\<open>company_list\<close>
  but \<^verbatim>\<open>domain\<close> and each sort key of \<^verbatim>\<open>lead_list\<close> but \<^verbatim>\<open>email\<close>, the last criterion is
  the natural key (domain, email) ascending, and the ordered rows are the same for
  every storage order of the same rows: a sorted permutation that the row set alone
  determines. The \<^verbatim>\<open>domain\<close> and \<^verbatim>\<open>email\<close> sorts have the lower-cased key as their only
  criterion; their result is determined by the row set when no two keys differ in
  letter case only.
\<close>

theorem list_order_determined:
  assumes "mset cs = mset cs'" and "distinct (map domain cs)"
    and "company_sort_key U G \<in> {''name'', ''industry'', ''size'', ''leads''}
       \<or> company_sort_key U G = ''domain'' \<and> inj_on (ascii_lower \<circ> domain) (set cs)"
    and "mset ls = mset ls'" and "distinct (map email ls)"
    and "lead_sort_key U H \<in> {''name'', ''job_title'', ''company'', ''score'', ''stage''}
       \<or> lead_sort_key U H = ''email'' \<and> inj_on (ascii_lower \<circ> email) (set ls)"
  shows "queryset (company_list U G cs xs) = queryset (company_list U G cs' xs)
     \<and> sorted_wrt (row_le (company_order xs (company_sort_key U G) (company_sort_dir U G)))
          (queryset (company_list U G cs xs))
     \<and> mset (queryset (company_list U G cs xs)) = mset cs
     \<and> (company_sort_key U G \<noteq> ''domain'' \<longrightarrow>
          last (company_order xs (company_sort_key U G) (company_sort_dir U G)) = (Asc, domain_col))
     \<and> (company_sort_key U G = ''domain'' \<longrightarrow>
          company_order xs (company_sort_key U G) (company_sort_dir U G) = [(Asc, domain_sort)])
     \<and> queryset (lead_list U H ls ys) = queryset (lead_list U H ls' ys)
     \<and> sorted_wrt (row_le (lead_order ys (lead_sort_key U H) (lead_sort_dir U H)))
          (queryset (lead_list U H ls ys))
     \<and> mset (queryset (lead_list U H ls ys)) = mset ls
     \<and> (lead_sort_key U H \<noteq> ''email'' \<longrightarrow>
          last (lead_order ys (lead_sort_key U H) (lead_sort_dir U H)) = (Asc, email_col))
     \<and> (lead_sort_key U H = ''email'' \<longrightarrow>
          lead_order ys (lead_sort_key U H) (lead_sort_dir U H) = [(Asc, email_sort)])"
proof -
  have bd: "mset (by_domain cs) = mset (by_domain cs')" "set (by_domain cs) = set cs"
    using assms(1) by (simp_all add: by_domain_def mset_order_by set_order_by)
  have c: "queryset (company_list U G cs xs) = queryset (company_list U G cs' xs)"
    unfolding company_queryset
    using bd(1) company_no_ties [OF assms(2,3), of xs, folded bd(2)] by (rule order_by_determined)
  have l: "queryset (lead_list U H ls ys) = queryset (lead_list U H ls' ys)"
    unfolding lead_queryset
    using assms(4) lead_no_ties [OF assms(5,6)] by (rule order_by_determined)
  have co: "company_order xs (company_sort_key U G) (company_sort_dir U G) =
      company_fixed_order xs (company_sort_key U G)"
    by (rule company_order_fixed)
  have lo: "lead_order ys (lead_sort_key U H) (lead_sort_dir U H) = lead_fixed_order ys (lead_sort_key U H)"
    by (rule lead_order_fixed)
  have cs: "sorted_wrt (row_le (company_order xs (company_sort_key U G) (company_sort_dir U G)))
          (queryset (company_list U G cs xs))"
    unfolding co company_queryset by (rule sorted_order_by)
  have ls: "sorted_wrt (row_le (lead_order ys (lead_sort_key U H) (lead_sort_dir U H)))
          (queryset (lead_list U H ls ys))"
    unfolding lo lead_queryset by (rule sorted_order_by)
  have cm: "mset (queryset (company_list U G cs xs)) = mset cs"
    unfolding company_queryset by (simp add: mset_order_by by_domain_def)
  have lm: "mset (queryset (lead_list U H ls ys)) = mset ls"
    unfolding lead_queryset by (rule mset_order_by)
  have cl: "company_sort_key U G \<noteq> ''domain'' \<longrightarrow>
      last (company_order xs (company_sort_key U G) (company_sort_dir U G)) = (Asc, domain_col)"
    unfolding co using assms(3) by (auto simp: company_fixed_order_def)
  have cd: "company_sort_key U G = ''domain'' \<longrightarrow>
      company_order xs (company_sort_key U G) (company_sort_dir U G) = [(Asc, domain_sort)]"
    unfolding co by (simp add: company_fixed_order_def)
  have ll: "lead_sort_key U H \<noteq> ''email'' \<longrightarrow>
      last (lead_order ys (lead_sort_key U H) (lead_sort_dir U H)) = (Asc, email_col)"
    unfolding lo using assms(6) by (auto simp: lead_fixed_order_def)
  have ld: "lead_sort_key U H = ''email'' \<longrightarrow>
      lead_order ys (lead_sort_key U H) (lead_sort_dir U H) = [(Asc, email_sort)]"
    unfolding lo by (simp add: lead_fixed_order_def)
  from c cs cm cl cd l ls lm ll ld show ?thesis
    by (intro conjI)
qed

lemma example_keys:
  "company_sort_key U [(''sort'', ''size'')] = ''size''" "lead_sort_key U [(''sort'', ''score'')] = ''score''"
  "company_sort_key U [(''sort'', ''domain'')] = ''domain''" "lead_sort_key U [(''sort'', ''email'')] = ''email''"
  by (simp_all add: company_sort_key_def lead_sort_key_def param_def qd_get_def getlist_def strip_def
      lower_def ascii_def ascii_strip_def ascii_lower_def is_space_def lower_char_def)

text \<open>Two companies of one size and two leads of one score, stored in either order.\<close>

theorem list_order_determined_witness:
  "queryset (company_list ascii_only [(''sort'', ''size'')] [sized ''a.com'' 5, sized ''b.com'' 5] []) =
     [sized ''a.com'' 5, sized ''b.com'' 5]
   \<and> queryset (company_list ascii_only [(''sort'', ''size'')] [sized ''b.com'' 5, sized ''a.com'' 5] []) =
     [sized ''a.com'' 5, sized ''b.com'' 5]
   \<and> queryset (lead_list ascii_only [(''sort'', ''score'')] [scored ''a@x.io'' 5, scored ''b@x.io'' 5] []) =
     [scored ''a@x.io'' 5, scored ''b@x.io'' 5]
   \<and> queryset (lead_list ascii_only [(''sort'', ''score'')] [scored ''b@x.io'' 5, scored ''a@x.io'' 5] []) =
     [scored ''a@x.io'' 5, scored ''b@x.io'' 5]"
proof -
  let ?cs = "[sized ''a.com'' 5, sized ''b.com'' 5]" and ?cs' = "[sized ''b.com'' 5, sized ''a.com'' 5]"
  let ?ls = "[scored ''a@x.io'' 5, scored ''b@x.io'' 5]" and ?ls' = "[scored ''b@x.io'' 5, scored ''a@x.io'' 5]"
  have h: "mset ?cs = mset ?cs'" "distinct (map domain ?cs)"
    "company_sort_key ascii_only [(''sort'', ''size'')] \<in> {''name'', ''industry'', ''size'', ''leads''}
       \<or> company_sort_key ascii_only [(''sort'', ''size'')] = ''domain'' \<and> inj_on (ascii_lower \<circ> domain) (set ?cs)"
    "mset ?ls = mset ?ls'" "distinct (map email ?ls)"
    "lead_sort_key ascii_only [(''sort'', ''score'')] \<in> {''name'', ''job_title'', ''company'', ''score'', ''stage''}
       \<or> lead_sort_key ascii_only [(''sort'', ''score'')] = ''email'' \<and> inj_on (ascii_lower \<circ> email) (set ?ls)"
    by (simp_all add: sized_fields scored_fields example_keys)
  have c: "queryset (company_list ascii_only [(''sort'', ''size'')] ?cs []) = ?cs"
    by (simp add: company_queryset example_keys by_domain_def order_by_def company_fixed_order_def
        col_cmp_def size_sort_def domain_col_def sized_fields Coalesce_def)
  have l: "queryset (lead_list ascii_only [(''sort'', ''score'')] ?ls []) = ?ls"
    by (simp add: lead_queryset example_keys order_by_def lead_fixed_order_def col_cmp_def
        lead_score_col_def email_col_def scored_fields)
  from list_order_determined [OF h, of "[]" "[]"] c l show ?thesis
    by simp
qed

text \<open>
  Two leads whose addresses differ in case only: sorted by \<^verbatim>\<open>email\<close> they tie, and the
  result follows the storage order. Two such companies: the criteria of the \<^verbatim>\<open>domain\<close>
  sort are the lower-cased domain alone, and they rank the two companies equal.
\<close>

theorem key_sort_tie_counterexample:
  "lead_sort_key ascii_only [(''sort'', ''email'')] = ''email''
   \<and> distinct (map email [blank_lead ''Ann@x.io'', blank_lead ''ann@x.io''])
   \<and> mset [blank_lead ''Ann@x.io'', blank_lead ''ann@x.io''] =
       mset [blank_lead ''ann@x.io'', blank_lead ''Ann@x.io'']
   \<and> queryset (lead_list ascii_only [(''sort'', ''email'')] [blank_lead ''Ann@x.io'', blank_lead ''ann@x.io''] [])
       \<noteq> queryset (lead_list ascii_only [(''sort'', ''email'')] [blank_lead ''ann@x.io'', blank_lead ''Ann@x.io''] [])
   \<and> company_order [] (company_sort_key ascii_only [(''sort'', ''domain'')])
        (company_sort_dir ascii_only [(''sort'', ''domain'')]) = [(Asc, domain_sort)]
   \<and> domain (blank_company ''Acme.com'') \<noteq> domain (blank_company ''acme.com'')
   \<and> row_cmp (company_order [] (company_sort_key ascii_only [(''sort'', ''domain'')])
                 (company_sort_dir ascii_only [(''sort'', ''domain'')]))
        (blank_company ''Acme.com'') (blank_company ''acme.com'') = EQUAL"
proof -
  have lc: "ascii_lower ''Acme.com'' = ''acme.com''" "ascii_lower ''acme.com'' = ''acme.com''"
    "ascii_lower ''Ann@x.io'' = ''ann@x.io''" "ascii_lower ''ann@x.io'' = ''ann@x.io''"
    by (simp_all add: ascii_lower_def lower_char_def)
  have l1: "queryset (lead_list ascii_only [(''sort'', ''email'')] [blank_lead ''Ann@x.io'', blank_lead ''ann@x.io''] [])
      = [blank_lead ''Ann@x.io'', blank_lead ''ann@x.io'']"
    and l2: "queryset (lead_list ascii_only [(''sort'', ''email'')] [blank_lead ''ann@x.io'', blank_lead ''Ann@x.io''] [])
      = [blank_lead ''ann@x.io'', blank_lead ''Ann@x.io'']"
    by (simp_all add: lead_queryset example_keys order_by_def lead_fixed_order_def col_cmp_def
        email_sort_def blank_lead_def lc)
  have ne: "blank_lead ''Ann@x.io'' \<noteq> blank_lead ''ann@x.io''"
    by (simp add: blank_lead_def)
  have co: "company_order [] (company_sort_key ascii_only [(''sort'', ''domain'')])
        (company_sort_dir ascii_only [(''sort'', ''domain'')]) = [(Asc, domain_sort)]"
    unfolding company_order_fixed by (simp add: example_keys company_fixed_order_def)
  have tie: "row_cmp [(Asc, domain_sort)] (blank_company ''Acme.com'') (blank_company ''acme.com'') = EQUAL"
    by (simp add: col_cmp_def domain_sort_def blank_company_def lc)
  show ?thesis
    unfolding l1 l2 co using ne tie
    by (simp add: example_keys blank_company_def blank_lead_def)
qed

end
